theory Spec2Isabelle
  imports Complex_Main "HOL-Library.Word" "HOL-Library.Sublist"
begin

section \<open>The chat gateway of \<open>src/public/scripts/server.js\<close>\<close>

text \<open>
  The development embeds the \<^verbatim>\<open>POST /api/chat\<close> route of the server: the validation of
  the request body, the construction of the chat session, the race between the call to the
  model and the 15 second timers, the classification of failures in the \<^verbatim>\<open>catch\<close> block
  and the shape of the JSON replies. The SDK of the model provider and the rate limiting
  middleware are libraries outside the repository; their behaviour enters as parameters.
\<close>

subsection \<open>JavaScript values and strings\<close>

text \<open>
  A JavaScript string is a sequence of UTF-16 code units; \<open>length\<close>, \<open>trim\<close> and
  \<open>includes\<close> work on code units. \<open>js\<close> embeds a literal whose characters are all below
  U+0100; the accented letters of the source's messages are written as their code units.
\<close>

type_synonym jsstring = "16 word list"

definition js :: "string \<Rightarrow> jsstring" where
  "js s = map of_char s"

text \<open>
  The values a parsed JSON or urlencoded body can hold, and \<open>undefined\<close> for what is absent.
  A number of the body is finite, so it is kept as a rational.
\<close>

datatype jsval =
    JUndefined
  | JNull
  | JBool bool
  | JNum rat
  | JStr jsstring
  | JArr "jsval list"
  | JObj "(jsstring \<times> jsval) list"

fun truthy :: "jsval \<Rightarrow> bool" where
  "truthy JUndefined = False"
| "truthy JNull = False"
| "truthy (JBool b) = b"
| "truthy (JNum r) = (r \<noteq> 0)"
| "truthy (JStr s) = (s \<noteq> [])"
| "truthy (JArr xs) = True"
| "truthy (JObj fs) = True"

fun typeof :: "jsval \<Rightarrow> string" where
  "typeof JUndefined = ''undefined''"
| "typeof JNull = ''object''"
| "typeof (JBool b) = ''boolean''"
| "typeof (JNum r) = ''number''"
| "typeof (JStr s) = ''string''"
| "typeof (JArr xs) = ''object''"
| "typeof (JObj fs) = ''object''"

text \<open>\<open>a || b\<close>\<close>

definition js_or :: "jsval \<Rightarrow> jsval \<Rightarrow> jsval" where
  "js_or a b = (if truthy a then a else b)"

text \<open>
  Reading one of the properties \<open>message\<close>, \<open>chatHistory\<close>, \<open>role\<close>, \<open>content\<close> of a value
  that is neither \<open>undefined\<close> nor \<open>null\<close>: only an object of the body has them.
\<close>

fun get_prop :: "jsval \<Rightarrow> jsstring \<Rightarrow> jsval" where
  "get_prop (JObj fs) k = (case map_of fs k of Some v \<Rightarrow> v | None \<Rightarrow> JUndefined)"
| "get_prop v k = JUndefined"

text \<open>White space and line terminators, as \<open>String.prototype.trim\<close> and \<open>parseInt\<close> strip them.\<close>

definition is_js_whitespace :: "16 word \<Rightarrow> bool" where
  "is_js_whitespace c \<longleftrightarrow>
     c \<in> {0x9, 0xA, 0xB, 0xC, 0xD, 0x20, 0xA0, 0x1680, 0x2028, 0x2029, 0x202F, 0x205F,
          0x3000, 0xFEFF}
     \<or> (0x2000 \<le> c \<and> c \<le> 0x200A)"

definition trim :: "jsstring \<Rightarrow> jsstring" where
  "trim s = rev (dropWhile is_js_whitespace (rev (dropWhile is_js_whitespace s)))"

text \<open>\<open>s.includes(p)\<close>: \<open>p\<close> occurs in \<open>s\<close> as a contiguous run of code units.\<close>

fun str_includes :: "jsstring \<Rightarrow> jsstring \<Rightarrow> bool" where
  "str_includes [] p = (p = [])"
| "str_includes (c # cs) p = (prefix p (c # cs) \<or> str_includes cs p)"

text \<open>
  Every value thrown inside the handler is an \<open>Error\<close> object with a string message:
  the ones the handler creates, the \<open>TypeError\<close>s of the runtime and the errors of the SDK.
\<close>

datatype jserror = Error (message: jsstring) | TypeError (message: jsstring)

subsection \<open>Decimal digits\<close>

text \<open>The character of a decimal digit (of the last digit of a larger number).\<close>

definition digit :: "nat \<Rightarrow> 16 word" where
  "digit d = of_nat (48 + d mod 10)"

text \<open>The number that a list of decimal digits writes, most significant digit first.\<close>

definition decimal :: "nat list \<Rightarrow> nat" where
  "decimal ds = foldl (\<lambda>a d. a * 10 + d mod 10) 0 ds"

subsection \<open>\<open>parseInt\<close>\<close>

definition digit_value :: "16 word \<Rightarrow> nat" where
  "digit_value c =
     (if 0x30 \<le> c \<and> c \<le> 0x39 then unat c - 0x30
      else if 0x61 \<le> c \<and> c \<le> 0x7A then unat c - 0x61 + 10
      else if 0x41 \<le> c \<and> c \<le> 0x5A then unat c - 0x41 + 10
      else 36)"

text \<open>
  The numbers that \<open>parseInt\<close> returns: \<open>NaN\<close>, the two infinities, and the doubles
  whose value is an integer (the two zeros are not told apart; both are falsy). The value
  of the digits is rounded to the nearest double, as V8 does.
\<close>

datatype jsnumber = NaN | Finite int | PosInfinity | NegInfinity

text \<open>The number of binary digits of a natural number.\<close>

fun bit_length :: "nat \<Rightarrow> nat" where
  "bit_length 0 = 0"
| "bit_length (Suc n) = Suc (bit_length (Suc n div 2))"

text \<open>\<open>n\<close> rounded to the nearest multiple of \<open>2 ^ sh\<close>, a tie going to the even multiple.\<close>

definition round_at :: "nat \<Rightarrow> nat \<Rightarrow> nat" where
  "round_at sh n =
     (if 2 ^ sh div 2 < n mod 2 ^ sh \<or> (n mod 2 ^ sh = 2 ^ sh div 2 \<and> odd (n div 2 ^ sh))
      then n div 2 ^ sh + 1 else n div 2 ^ sh) * 2 ^ sh"

text \<open>
  The double nearest to a natural number: the number itself below \<open>2^53\<close>, otherwise the
  number rounded to 53 significant binary digits, and \<open>None\<close>, for infinity, when that
  reaches \<open>2^1024\<close>.
\<close>

definition to_double :: "nat \<Rightarrow> nat option" where
  "to_double n =
     (if n < 2 ^ 53 then Some n
      else if round_at (bit_length n - 53) n < 2 ^ 1024
           then Some (round_at (bit_length n - 53) n)
           else None)"

definition number :: "bool \<Rightarrow> nat \<Rightarrow> jsnumber" where
  "number neg n =
     (case to_double n of
        None \<Rightarrow> if neg then NegInfinity else PosInfinity
      | Some v \<Rightarrow> Finite (if neg then - int v else int v))"

text \<open>
  \<open>parseInt(s)\<close> with no radix: leading white space, a sign, the prefix \<open>0x\<close> for radix 16,
  then the longest run of digits, whose value is returned as a double; without a digit
  the result is \<open>NaN\<close>.
\<close>

definition parseInt :: "jsstring \<Rightarrow> jsnumber" where
  "parseInt s =
     (let s1 = dropWhile is_js_whitespace s;
          neg = (take 1 s1 = js ''-'');
          s2 = (if take 1 s1 = js ''-'' \<or> take 1 s1 = js ''+'' then drop 1 s1 else s1);
          hex = (take 2 s2 = js ''0x'' \<or> take 2 s2 = js ''0X'');
          radix = (if hex then 16 else 10);
          s3 = (if hex then drop 2 s2 else s2);
          ds = takeWhile (\<lambda>c. digit_value c < radix) s3;
          n = foldl (\<lambda>a c. a * radix + digit_value c) 0 ds
      in if ds = [] then NaN else number neg n)"

subsection \<open>\<open>Date.prototype.toISOString\<close>\<close>

definition pad2 :: "nat \<Rightarrow> jsstring" where
  "pad2 n = [digit (n div 10), digit n]"

definition pad3 :: "nat \<Rightarrow> jsstring" where
  "pad3 n = [digit (n div 100), digit (n div 10), digit n]"

definition pad4 :: "nat \<Rightarrow> jsstring" where
  "pad4 n = [digit (n div 1000), digit (n div 100), digit (n div 10), digit n]"

definition pad6 :: "nat \<Rightarrow> jsstring" where
  "pad6 n = [digit (n div 100000), digit (n div 10000), digit (n div 1000),
             digit (n div 100), digit (n div 10), digit n]"

text \<open>
  The proleptic Gregorian date (year, month, day) of a day number counted from 1970-01-01,
  by eras of 400 years (146097 days) that start on 1 March: the year within the era, the
  day within that year, and the month and day counted from March.
\<close>

definition year_of_era :: "nat \<Rightarrow> nat" where
  "year_of_era doe = (doe - doe div 1460 + doe div 36524 - doe div 146096) div 365"

definition day_of_year :: "nat \<Rightarrow> nat \<Rightarrow> nat" where
  "day_of_year doe yoe = doe - (365 * yoe + yoe div 4 - yoe div 100)"

definition month_day :: "nat \<Rightarrow> nat \<Rightarrow> nat \<times> nat" where
  "month_day doy mp = (if mp < 10 then mp + 3 else mp - 9, doy - (153 * mp + 2) div 5 + 1)"

definition date_in_era :: "nat \<Rightarrow> nat \<Rightarrow> nat \<Rightarrow> nat \<times> nat \<times> nat" where
  "date_in_era era yoe doy =
     (case month_day doy ((5 * doy + 2) div 153) of
        (m, d) \<Rightarrow> (yoe + era * 400 + (if m \<le> 2 then 1 else 0), m, d))"

definition civil :: "nat \<Rightarrow> nat \<times> nat \<times> nat" where
  "civil days =
     date_in_era ((days + 719468) div 146097)
       (year_of_era ((days + 719468) mod 146097))
       (day_of_year ((days + 719468) mod 146097) (year_of_era ((days + 719468) mod 146097)))"

text \<open>Years above 9999 are written with a sign and six digits.\<close>

definition date_text :: "nat \<times> nat \<times> nat \<Rightarrow> jsstring" where
  "date_text ymd =
     (case ymd of
        (y, m, d) \<Rightarrow> (if y \<le> 9999 then pad4 y else js ''+'' @ pad6 y)
                     @ js ''-'' @ pad2 m @ js ''-'' @ pad2 d)"

definition time_text :: "nat \<Rightarrow> jsstring" where
  "time_text ms =
     pad2 (ms div 3600000) @ js '':'' @ pad2 (ms div 60000 mod 60) @ js '':''
     @ pad2 (ms div 1000 mod 60) @ js ''.'' @ pad3 (ms mod 1000)"

text \<open>
  The time value is a number of milliseconds since the epoch, as the system clock gives it
  (not before 1970).
\<close>

definition toISOString :: "nat \<Rightarrow> jsstring" where
  "toISOString t =
     date_text (civil (t div 86400000)) @ js ''T'' @ time_text (t mod 86400000) @ js ''Z''"



subsection \<open>Configuration read from the environment\<close>

text \<open>
  \<open>process.env\<close>: a variable is absent (\<open>None\<close>) or a string. \<open>API_LIMIT\<close> is only ever
  compared as a number by the limiter, so it is kept as the number it denotes, \<open>None\<close>
  when it is unset or empty.
\<close>

record process_env =
  GEMINI_MODEL :: "jsstring option"
  MAX_TOKENS :: "jsstring option"
  NODE_ENV :: "jsstring option"
  API_LIMIT :: "nat option"

text \<open>\<open>const API_REQUEST_LIMIT = process.env.API_LIMIT || 100\<close>\<close>

definition API_REQUEST_LIMIT :: "process_env \<Rightarrow> nat" where
  "API_REQUEST_LIMIT env = (case API_LIMIT env of Some n \<Rightarrow> n | None \<Rightarrow> 100)"

text \<open>A variable of \<open>process.env\<close> as a JavaScript value.\<close>

definition env_val :: "jsstring option \<Rightarrow> jsval" where
  "env_val v = (case v of None \<Rightarrow> JUndefined | Some s \<Rightarrow> JStr s)"

text \<open>\<open>const modelName = process.env.GEMINI_MODEL || "gemini-pro"\<close>\<close>

definition modelName :: "process_env \<Rightarrow> jsstring" where
  "modelName env =
     (case js_or (env_val (GEMINI_MODEL env)) (JStr (js ''gemini-pro'')) of
        JStr s \<Rightarrow> s | _ \<Rightarrow> [])"

text \<open>The decimal literals of the source are kept as exact fractions.\<close>

record generation_config =
  maxOutputTokens :: jsnumber
  temperature :: rat
  topP :: rat
  topK :: int

text \<open>
  \<open>parseInt(process.env.MAX_TOKENS) || 1000\<close>: \<open>parseInt\<close> converts its argument to a
  string first, so an absent variable is parsed as the text \<open>undefined\<close>; \<open>NaN\<close> and \<open>0\<close>
  are falsy.
\<close>

definition max_tokens :: "process_env \<Rightarrow> jsnumber" where
  "max_tokens env =
     (let v = parseInt (case MAX_TOKENS env of None \<Rightarrow> js ''undefined'' | Some s \<Rightarrow> s)
      in if v = NaN \<or> v = Finite 0 then Finite 1000 else v)"

definition generationConfig :: "process_env \<Rightarrow> generation_config" where
  "generationConfig env =
     \<lparr>maxOutputTokens = max_tokens env, temperature = 7 / 10, topP = 9 / 10, topK = 40\<rparr>"

definition safetySettings :: "(string \<times> string) list" where
  "safetySettings =
     [(''HARM_CATEGORY_HARASSMENT'', ''BLOCK_NONE''),
      (''HARM_CATEGORY_HATE_SPEECH'', ''BLOCK_NONE'')]"

subsection \<open>The SDK of the model provider\<close>

record turn =
  role :: jsval
  content :: jsval

record chat_params =
  history :: "turn list"
  generation :: generation_config
  safety :: "(string \<times> string) list"

text \<open>What \<open>sendMessage\<close> resolves with, as far as the handler reads it.\<close>

record usage_metadata =
  totalTokenCount :: "int option"

record model_response =
  text_of :: "jserror + jsstring"
  usageMetadata :: "usage_metadata option"

record raw_result =
  response :: "model_response option"

text \<open>
  How the promise of \<open>chat.sendMessage(message, { signal })\<close> settles: it resolves with a
  result (\<open>None\<close> for \<open>undefined\<close> or \<open>null\<close>) or rejects with an error.
\<close>

datatype send_outcome = Resolves "raw_result option" | Rejects jserror

text \<open>
  The behaviour of one call: \<open>own_settle\<close> is the time in milliseconds after the call at
  which the promise settles by itself, with the outcome, if it ever does; \<open>on_abort\<close> is
  how the promise settles when the signal aborts while the call is pending, \<open>None\<close> for a
  call that pays no attention to the signal. A call that honours the signal as \<open>fetch\<close>
  does rejects with the abort error.
\<close>

record adapter =
  own_settle :: "(nat \<times> send_outcome) option"
  on_abort :: "send_outcome option"

text \<open>
  The SDK as the handler uses it: \<open>startChat\<close> may reject the session parameters by
  throwing, and \<open>sendMessage\<close> behaves as an adapter chosen by the message.
\<close>

record sdk =
  startChat_throws :: "chat_params \<Rightarrow> jserror option"
  sendMessage :: "jsstring \<Rightarrow> adapter"

text \<open>
  The calls made to the SDK, in order. The system instruction is the source's fixed
  template with the message inserted, so the call records the model name and the message.
\<close>

datatype sdk_call =
    GetGenerativeModel jsstring jsstring
  | StartChat chat_params
  | SendMessage jsstring

subsection \<open>Replies\<close>

record chat_data =
  data_response :: jsstring
  data_timestamp :: jsstring
  data_model :: jsstring
  data_tokensUsed :: jsval

text \<open>
  The JSON body: \<open>{success: true, data}\<close> or \<open>{success: false, error, details}\<close>, where a
  \<open>details\<close> that is \<open>undefined\<close> is left out of the JSON text.
\<close>

datatype reply_body = Success chat_data | Failure jsstring "jsstring option"

record http_response =
  status :: nat
  body :: reply_body

fun success :: "reply_body \<Rightarrow> bool" where
  "success (Success d) = True"
| "success (Failure e d) = False"

fun error_text :: "reply_body \<Rightarrow> jsstring option" where
  "error_text (Success d) = None"
| "error_text (Failure e d) = Some e"

fun details :: "reply_body \<Rightarrow> jsstring option" where
  "details (Success d) = None"
| "details (Failure e d) = d"

definition invalid_message_text :: jsstring where
  "invalid_message_text =
     js ''Mensagem inv'' @ [0xE1] @ js ''lida. Forne'' @ [0xE7]
     @ js ''a um texto com pelo menos 5 caracteres.''"

definition timeout_text :: jsstring where
  "timeout_text = js ''Tempo de resposta excedido. Tente novamente.''"

definition generic_text :: jsstring where
  "generic_text =
     js ''Erro ao processar sua solicita'' @ [0xE7, 0xE3]
     @ js ''o. Por favor, tente novamente.''"

definition invalid_response_error :: jserror where
  "invalid_response_error = Error (js ''Resposta inv'' @ [0xE1] @ js ''lida da API'')"

definition timeout_error :: jserror where
  "timeout_error = Error (js ''Timeout na resposta da API'')"

subsection \<open>The \<open>catch\<close> block\<close>

definition statusCode :: "jserror \<Rightarrow> nat" where
  "statusCode e =
     (if str_includes (message e) (js ''Timeout'') then 504
      else if str_includes (message e) (js ''invalid'') then 400
      else 500)"

definition catch_block :: "process_env \<Rightarrow> jserror \<Rightarrow> http_response" where
  "catch_block env e =
     \<lparr>status = statusCode e,
      body = Failure
        (if str_includes (message e) (js ''Timeout'') then timeout_text else generic_text)
        (if NODE_ENV env = Some (js ''development'') then Some (message e) else None)\<rparr>"

subsection \<open>Validation and session parameters\<close>

text \<open>\<open>const { message, chatHistory = [] } = req.body\<close> throws on a body that is
  \<open>undefined\<close> or \<open>null\<close>.\<close>

definition destructure :: "jsval \<Rightarrow> jserror + jsval \<times> jsval" where
  "destructure req_body =
     (case req_body of
        JUndefined \<Rightarrow> Inl (TypeError
          (js ''Cannot destructure property 'message' of 'req.body' as it is undefined.''))
      | JNull \<Rightarrow> Inl (TypeError
          (js ''Cannot destructure property 'message' of 'req.body' as it is null.''))
      | _ \<Rightarrow> Inr (get_prop req_body (js ''message''), get_prop req_body (js ''chatHistory'')))"

text \<open>
  \<open>!message || typeof message !== "string" || message.trim().length < 5\<close>: the message that
  passes, or \<open>None\<close> when the handler answers 400.
\<close>

definition validate :: "jsval \<Rightarrow> jsstring option" where
  "validate msg =
     (if \<not> truthy msg \<or> typeof msg \<noteq> ''string'' then None
      else case msg of
             JStr s \<Rightarrow> if length (trim s) < 5 then None else Some s
           | _ \<Rightarrow> None)"

text \<open>\<open>msg => ({ role: msg.role, parts: [{ text: msg.content }] })\<close>\<close>

definition to_turn :: "jsval \<Rightarrow> jserror + turn" where
  "to_turn msg =
     (case msg of
        JUndefined \<Rightarrow> Inl (TypeError
          (js ''Cannot read properties of undefined (reading 'role')''))
      | JNull \<Rightarrow> Inl (TypeError (js ''Cannot read properties of null (reading 'role')''))
      | _ \<Rightarrow> Inr \<lparr>role = get_prop msg (js ''role''), content = get_prop msg (js ''content'')\<rparr>)"

fun map_turns :: "jsval list \<Rightarrow> jserror + turn list" where
  "map_turns [] = Inr []"
| "map_turns (m # ms) =
     (case to_turn m of
        Inl e \<Rightarrow> Inl e
      | Inr t \<Rightarrow> (case map_turns ms of Inl e \<Rightarrow> Inl e | Inr ts \<Rightarrow> Inr (t # ts)))"

text \<open>\<open>chatHistory.map(...)\<close>, with the default \<open>[]\<close> for an absent \<open>chatHistory\<close>.\<close>

definition map_history :: "jsval \<Rightarrow> jserror + turn list" where
  "map_history chatHistory =
     (case chatHistory of
        JUndefined \<Rightarrow> Inr []
      | JArr ms \<Rightarrow> map_turns ms
      | JNull \<Rightarrow> Inl (TypeError (js ''Cannot read properties of null (reading 'map')''))
      | _ \<Rightarrow> Inl (TypeError (js ''chatHistory.map is not a function'')))"

subsection \<open>The race between the call and the timers\<close>

text \<open>
  The handler arms two timers of 15000 ms in this order: timer 1, \<open>timeout\<close>, calls
  \<open>controller.abort()\<close>; timer 2 rejects the second promise of \<open>Promise.race\<close> with the
  timeout error. Time is counted in milliseconds from the start of the handler, and the
  synchronous code takes none. The event loop runs one callback at a time: timers with
  the same delay fire in the order in which they were armed, and after each callback the
  reactions to the promises it settled run to the end (so the handler resumes) before the
  next callback starts. The state of the event loop for one request:
  \<^item> \<open>armed\<close>: the timers that are armed, by number;
  \<^item> \<open>pending\<close>: the promise of \<open>sendMessage\<close> has not settled;
  \<^item> \<open>abort_calls\<close>: how often \<open>controller.abort()\<close> was called;
  \<^item> \<open>race_result\<close>: the settlement of \<open>Promise.race\<close> and its time;
  \<^item> \<open>reply\<close>: the response sent and its time;
  \<^item> \<open>logged\<close>: the errors written by \<open>console.error\<close> in the \<open>catch\<close> block;
  \<^item> \<open>late_timers\<close>: the timers whose callback ran after the reply was sent.
\<close>

record loop =
  armed :: "nat list"
  pending :: bool
  abort_calls :: nat
  race_result :: "(nat \<times> send_outcome) option"
  reply :: "(nat \<times> http_response) option"
  logged :: "jserror list"
  late_timers :: "nat list"

definition deadline :: nat where
  "deadline = 15000"

text \<open>
  The code after \<open>await Promise.race\<close>, for a result \<open>r\<close> at time \<open>t\<close>:
  the guard on \<open>result?.response\<close>, \<open>text()\<close>, which may throw, and the reply.
\<close>

definition tokensUsed :: "model_response \<Rightarrow> jsval" where
  "tokensUsed resp =
     js_or (case usageMetadata resp of
              None \<Rightarrow> JUndefined
            | Some u \<Rightarrow> (case totalTokenCount u of
                          None \<Rightarrow> JUndefined
                        | Some n \<Rightarrow> JNum (of_int n)))
           (JStr (js ''N/A''))"

definition on_result :: "process_env \<Rightarrow> nat \<Rightarrow> nat \<Rightarrow> raw_result option \<Rightarrow> jserror + http_response"
  where
  "on_result env now t r =
     (case r of
        None \<Rightarrow> Inl invalid_response_error
      | Some res \<Rightarrow>
         (case response res of
            None \<Rightarrow> Inl invalid_response_error
          | Some resp \<Rightarrow>
             (case text_of resp of
                Inl e \<Rightarrow> Inl e
              | Inr responseText \<Rightarrow>
                  Inr \<lparr>status = 200,
                       body = Success \<lparr>data_response = responseText,
                                       data_timestamp = toISOString (now + t),
                                       data_model = modelName env,
                                       data_tokensUsed = tokensUsed resp\<rparr>\<rparr>)))"

text \<open>The \<open>catch\<close> block as a step of the state: the error is logged, then answered.\<close>

definition caught :: "process_env \<Rightarrow> nat \<Rightarrow> jserror \<Rightarrow> loop \<Rightarrow> loop" where
  "caught env t e s = s\<lparr>reply := Some (t, catch_block env e), logged := logged s @ [e]\<rparr>"

text \<open>
  The handler resumes when the race settles. On a result it runs \<open>clearTimeout(timeout)\<close>,
  which disarms timer 1, and goes on; a rejection jumps to the \<open>catch\<close> block.
\<close>

definition resume :: "process_env \<Rightarrow> nat \<Rightarrow> nat \<Rightarrow> send_outcome \<Rightarrow> loop \<Rightarrow> loop" where
  "resume env now t out s =
     (case out of
        Resolves r \<Rightarrow>
          (let s1 = s\<lparr>armed := removeAll 1 (armed s)\<rparr>
           in case on_result env now t r of
                Inl e \<Rightarrow> caught env t e s1
              | Inr resp \<Rightarrow> s1\<lparr>reply := Some (t, resp)\<rparr>)
      | Rejects e \<Rightarrow> caught env t e s)"

text \<open>\<open>Promise.race\<close> takes the first settlement and discards every later one.\<close>

definition settle_race :: "process_env \<Rightarrow> nat \<Rightarrow> nat \<Rightarrow> send_outcome \<Rightarrow> loop \<Rightarrow> loop" where
  "settle_race env now t out s =
     (if race_result s = None then resume env now t out (s\<lparr>race_result := Some (t, out)\<rparr>)
      else s)"

definition adapter_settles :: "process_env \<Rightarrow> nat \<Rightarrow> nat \<Rightarrow> send_outcome \<Rightarrow> loop \<Rightarrow> loop"
  where
  "adapter_settles env now t out s =
     (if pending s then settle_race env now t out (s\<lparr>pending := False\<rparr>) else s)"

text \<open>
  A timer that is still armed fires: its callback runs, and the reactions to what it
  settles run before the next callback. Timer 1 calls \<open>controller.abort()\<close>; a pending
  call that honours the signal settles at once. Timer 2 rejects with the timeout error.
  A callback that runs after the reply was sent is recorded in \<open>late_timers\<close>.
\<close>

definition fire :: "process_env \<Rightarrow> nat \<Rightarrow> adapter \<Rightarrow> nat \<Rightarrow> nat \<Rightarrow> loop \<Rightarrow> loop" where
  "fire env now a i t s =
     (if i \<notin> set (armed s) then s
      else
        let s0 = s\<lparr>armed := removeAll i (armed s),
                   late_timers := (if reply s = None then late_timers s
                                   else late_timers s @ [i])\<rparr>
        in if i = 1 then
             (let s1 = s0\<lparr>abort_calls := abort_calls s0 + 1\<rparr>
              in if pending s1 then
                   (case on_abort a of
                      None \<Rightarrow> s1
                    | Some out \<Rightarrow> settle_race env now t out (s1\<lparr>pending := False\<rparr>))
                 else s1)
           else settle_race env now t (Rejects timeout_error) s0)"

text \<open>The call settles by itself, if the time at which it does is due.\<close>

definition settle_own :: "process_env \<Rightarrow> nat \<Rightarrow> adapter \<Rightarrow> (nat \<Rightarrow> bool) \<Rightarrow> loop \<Rightarrow> loop" where
  "settle_own env now a due s =
     (case own_settle a of
        None \<Rightarrow> s
      | Some (t, out) \<Rightarrow> if due t then adapter_settles env now t out s else s)"

text \<open>
  The events of one request in the order of the event loop. The handler arms timer 1,
  then calls \<open>sendMessage\<close>, then arms timer 2, all with nothing in between. A call that
  settles by itself before the deadline comes first. A call that settles by itself at
  exactly the deadline does so through a timer of the same delay that \<open>sendMessage\<close>
  armed, after timer 1 and before timer 2, so it comes between the two. A call that
  settles later comes after both.
\<close>

definition run_race :: "process_env \<Rightarrow> nat \<Rightarrow> adapter \<Rightarrow> loop \<Rightarrow> loop" where
  "run_race env now a s =
     settle_own env now a (\<lambda>t. deadline < t)
       (fire env now a 2 deadline
          (settle_own env now a (\<lambda>t. t = deadline)
             (fire env now a 1 deadline
                (settle_own env now a (\<lambda>t. t < deadline) s))))"

subsection \<open>The handler\<close>

text \<open>What one request leaves behind: the state of its event loop and the SDK calls.\<close>

record run =
  final :: loop
  sdk_calls :: "sdk_call list"

definition idle :: loop where
  "idle = \<lparr>armed = [], pending = False, abort_calls = 0, race_result = None, reply = None,
           logged = [], late_timers = []\<rparr>"

text \<open>The state in which the handler awaits the race: both timers armed, the call pending.\<close>

definition racing :: loop where
  "racing = idle\<lparr>armed := [1, 2], pending := True\<rparr>"

definition chat_handler :: "process_env \<Rightarrow> sdk \<Rightarrow> nat \<Rightarrow> jsval \<Rightarrow> run" where
  "chat_handler env api now req_body =
     (case destructure req_body of
        Inl e \<Rightarrow> \<lparr>final = caught env 0 e idle, sdk_calls = []\<rparr>
      | Inr (msg, chatHistory) \<Rightarrow>
         (case validate msg of
            None \<Rightarrow>
              \<lparr>final = idle\<lparr>reply := Some (0, \<lparr>status = 400,
                                                 body = Failure invalid_message_text None\<rparr>)\<rparr>,
               sdk_calls = []\<rparr>
          | Some m \<Rightarrow>
             (let c1 = [GetGenerativeModel (modelName env) m]
              in case map_history chatHistory of
                   Inl e \<Rightarrow> \<lparr>final = caught env 0 e idle, sdk_calls = c1\<rparr>
                 | Inr h \<Rightarrow>
                    (let params = \<lparr>history = h, generation = generationConfig env,
                                   safety = safetySettings\<rparr>;
                         c2 = c1 @ [StartChat params]
                     in case startChat_throws api params of
                          Some e \<Rightarrow> \<lparr>final = caught env 0 e idle, sdk_calls = c2\<rparr>
                        | None \<Rightarrow>
                            \<lparr>final = run_race env now (sendMessage api m) racing,
                             sdk_calls = c2 @ [SendMessage m]\<rparr>))))"

subsection \<open>The rate limiter in front of the handler\<close>

record window =
  count :: nat
  windowStart :: nat

text \<open>\<open>windowMs: 60 * 60 * 1000\<close>\<close>

definition windowMs :: nat where
  "windowMs = 60 * 60 * 1000"

definition limit_text :: jsstring where
  "limit_text =
     js ''Limite de requisi'' @ [0xE7, 0xF5] @ js ''es excedido. Tente novamente mais tarde.''"

text \<open>
  Modelled from the spec: the check of the rate limiting middleware, a library that is
  not part of the sources. The spec keeps, for each client, a window \<open>{count, windowStart}\<close>
  that is created on the client's first request and replaced when the fixed window of one
  hour has elapsed; a request is counted and then refused with HTTP 429 when the client
  has exceeded the quota within the current window. The function returns whether the
  request may pass, and the store with the request counted.
\<close>

definition limiter_check ::
  "nat \<Rightarrow> ('k \<Rightarrow> window option) \<Rightarrow> 'k \<Rightarrow> nat \<Rightarrow> bool \<times> ('k \<Rightarrow> window option)" where
  "limiter_check quota store k now =
     (let w = (case store k of
                 None \<Rightarrow> \<lparr>count = 1, windowStart = now\<rparr>
               | Some w0 \<Rightarrow>
                   if now < windowStart w0 + windowMs then w0\<lparr>count := count w0 + 1\<rparr>
                   else \<lparr>count = 1, windowStart = now\<rparr>)
      in (count w \<le> quota, store(k \<mapsto> w)))"

record 'k request =
  client :: 'k
  arrival :: nat
  req_body :: jsval
  req_sdk :: sdk

text \<open>
  \<open>app.post("/api/chat", limiter, handler)\<close>: the limiter runs first; a refused request
  never reaches the handler. It is answered with the \<open>message\<close> configured in the source
  and the status 429 that the spec gives for a refused request.
\<close>

definition limited :: run where
  "limited =
     \<lparr>final = idle\<lparr>reply := Some (0, \<lparr>status = 429, body = Failure limit_text None\<rparr>)\<rparr>,
      sdk_calls = []\<rparr>"

definition api_chat ::
  "process_env \<Rightarrow> ('k \<Rightarrow> window option) \<Rightarrow> 'k request \<Rightarrow> ('k \<Rightarrow> window option) \<times> run" where
  "api_chat env store rq =
     (case limiter_check (API_REQUEST_LIMIT env) store (client rq) (arrival rq) of
        (True, store') \<Rightarrow> (store', chat_handler env (req_sdk rq) (arrival rq) (req_body rq))
      | (False, store') \<Rightarrow> (store', limited))"

text \<open>The store of the limiter after a sequence of requests, served in order.\<close>

definition serve ::
  "process_env \<Rightarrow> ('k \<Rightarrow> window option) \<Rightarrow> 'k request list \<Rightarrow> ('k \<Rightarrow> window option)" where
  "serve env store rqs = foldl (\<lambda>st rq. fst (api_chat env st rq)) store rqs"

text \<open>The requests of one client among a sequence of requests, in order.\<close>

definition requests_of :: "'k \<Rightarrow> 'k request list \<Rightarrow> 'k request list" where
  "requests_of c rqs = filter (\<lambda>r. client r = c) rqs"

subsection \<open>What the handler has answered once the race has settled\<close>

text \<open>
  The reply and the log entries that the continuation of the handler produces for a
  settlement of the race, and the two shapes of the state of a request that reached
  \<open>sendMessage\<close>: the race is still open, with timer 2 armed, or it has settled and the
  handler has answered accordingly.
\<close>

definition answer :: "process_env \<Rightarrow> nat \<Rightarrow> nat \<Rightarrow> send_outcome \<Rightarrow> http_response \<times> jserror list" where
  "answer env now t out =
     (case out of
        Resolves r \<Rightarrow>
          (case on_result env now t r of
             Inl e \<Rightarrow> (catch_block env e, [e])
           | Inr resp \<Rightarrow> (resp, []))
      | Rejects e \<Rightarrow> (catch_block env e, [e]))"

definition settled_as :: "process_env \<Rightarrow> nat \<Rightarrow> nat \<Rightarrow> send_outcome \<Rightarrow> loop \<Rightarrow> bool" where
  "settled_as env now t out s \<longleftrightarrow>
     reply s = Some (t, fst (answer env now t out)) \<and> logged s = snd (answer env now t out)"

definition race_open :: "loop \<Rightarrow> bool" where
  "race_open s \<longleftrightarrow> race_result s = None \<and> reply s = None \<and> logged s = [] \<and> 2 \<in> set (armed s)"

definition race_done :: "process_env \<Rightarrow> nat \<Rightarrow> loop \<Rightarrow> bool" where
  "race_done env now s \<longleftrightarrow> (\<exists>t out. race_result s = Some (t, out) \<and> settled_as env now t out s)"

text \<open>
  Two states agree on what decides the order of events: the armed timers, whether the call
  is pending, and the settlement of the race.
\<close>

definition same_control :: "loop \<Rightarrow> loop \<Rightarrow> bool" where
  "same_control s s' \<longleftrightarrow>
     armed s = armed s' \<and> pending s = pending s' \<and> race_result s = race_result s'"

subsection \<open>Sample inputs\<close>

text \<open>Environments, request bodies and adapters used to evaluate the model.\<close>

definition production_env :: process_env where
  "production_env = \<lparr>GEMINI_MODEL = None, MAX_TOKENS = None,
                      NODE_ENV = Some (js ''production''), API_LIMIT = None\<rparr>"

definition flash_env :: process_env where
  "flash_env = \<lparr>GEMINI_MODEL = Some (js ''gemini-1.5-flash''), MAX_TOKENS = Some (js ''2048''),
                 NODE_ENV = Some (js ''production''), API_LIMIT = Some 2\<rparr>"

definition development_env :: process_env where
  "development_env = \<lparr>GEMINI_MODEL = None, MAX_TOKENS = None,
                       NODE_ENV = Some (js ''development''), API_LIMIT = None\<rparr>"

definition edge_env :: process_env where
  "edge_env = \<lparr>GEMINI_MODEL = Some [], MAX_TOKENS = Some (js ''-5''),
                NODE_ENV = Some (js ''production''), API_LIMIT = None\<rparr>"

definition sdk_with :: "adapter \<Rightarrow> sdk" where
  "sdk_with a = \<lparr>startChat_throws = (\<lambda>p. None), sendMessage = (\<lambda>m. a)\<rparr>"

definition hello_body :: jsval where
  "hello_body = JObj [(js ''message'', JStr (js ''hello world''))]"

definition short_body :: jsval where
  "short_body = JObj [(js ''message'', JStr (js ''  hi   ''))]"

definition compatible_result :: raw_result where
  "compatible_result =
     \<lparr>response = Some \<lparr>text_of = Inr (js ''Compatible''),
                        usageMetadata = Some \<lparr>totalTokenCount = Some 12\<rparr>\<rparr>\<rparr>"


definition prompt_adapter :: "raw_result option \<Rightarrow> adapter" where
  "prompt_adapter r = \<lparr>own_settle = Some (100, Resolves r), on_abort = None\<rparr>"

definition failing_adapter :: "jsstring \<Rightarrow> adapter" where
  "failing_adapter m = \<lparr>own_settle = Some (100, Rejects (Error m)), on_abort = None\<rparr>"

definition silent_adapter :: adapter where
  "silent_adapter = \<lparr>own_settle = None, on_abort = None\<rparr>"

definition sample_request :: "nat \<Rightarrow> jsval \<Rightarrow> adapter \<Rightarrow> nat request" where
  "sample_request t b a = \<lparr>client = 7, arrival = t, req_body = b, req_sdk = sdk_with a\<rparr>"

definition aborting_adapter :: adapter where
  "aborting_adapter =
     \<lparr>own_settle = None,
      on_abort = Some (Rejects (Error (js ''This operation was aborted'')))\<rparr>"

section \<open>Properties\<close>

subsection \<open>Unfolding the model on concrete inputs\<close>

lemmas race_defs = run_race_def settle_own_def fire_def settle_race_def adapter_settles_def
  resume_def
  caught_def catch_block_def on_result_def idle_def racing_def deadline_def Let_def

lemmas date_defs = toISOString_def civil_def year_of_era_def day_of_year_def month_day_def
  date_in_era_def date_text_def time_text_def pad2_def pad3_def pad4_def pad6_def digit_def

subsection \<open>Strings, digits and dates\<close>

lemma unat_digit: "unat (digit d) = 48 + d mod 10"
proof -
  have "unat (of_nat (48 + d mod 10) :: 16 word) = (48 + d mod 10) mod 2 ^ LENGTH(16)"
    by (rule unat_of_nat)
  then show ?thesis unfolding digit_def by simp
qed

lemma digit_range: "0x30 \<le> digit d \<and> digit d \<le> 0x39"
  by (simp add: word_le_nat_alt unat_digit)


lemma str_includes_sublist: "str_includes s p \<longleftrightarrow> sublist p s"
  by (induction s) (auto simp: sublist_Cons_right)

lemma trim_sample: "trim (js ''  hi   '') = js ''hi''"
  by (simp add: trim_def is_js_whitespace_def js_def)

lemma bit_length_numeral:
  "bit_length (numeral k) = Suc (bit_length (numeral k div 2))"
proof -
  obtain m where m: "numeral k = Suc m" by (metis Suc_pred' zero_less_numeral)
  show ?thesis unfolding m by (rule bit_length.simps)
qed

lemma to_double_exact: "n < 2 ^ 53 \<Longrightarrow> to_double n = Some n"
  by (simp add: to_double_def)

lemma number_exact:
  "n < 2 ^ 53 \<Longrightarrow> number False n = Finite (int n)"
  "n < 2 ^ 53 \<Longrightarrow> number True n = Finite (- int n)"
  by (simp_all add: number_def to_double_exact)

lemma to_double_samples:
  "to_double 9007199254740993 = Some 9007199254740992"
  "to_double 9007199254740995 = Some 9007199254740996"
  "to_double 9007199254740992 = Some 9007199254740992"
  "to_double 18014398509481985 = Some 18014398509481984"
  "to_double 18014398509481987 = Some 18014398509481988"
  by (simp_all add: to_double_def round_at_def bit_length_numeral)

lemma parseInt_samples:
  "parseInt (js ''  42abc'') = Finite 42"
  "parseInt (js ''0x1F'') = Finite 31"
  "parseInt (js ''12.5'') = Finite 12"
  "parseInt (js ''abc'') = NaN"
  "parseInt (js ''0'') = Finite 0"
  "parseInt (js ''-7'') = Finite (- 7)"
  "parseInt (js ''9007199254740993'') = Finite 9007199254740992"
  by (simp_all add: parseInt_def Let_def js_def is_js_whitespace_def digit_value_def number_def
        to_double_def round_at_def bit_length_numeral)

lemma bit_length_le: "n \<noteq> 0 \<Longrightarrow> 2 ^ (bit_length n - 1) \<le> n"
proof (induction n rule: bit_length.induct)
  case 1
  then show ?case by simp
next
  case (2 n)
  show ?case
  proof (cases "Suc n div 2 = 0")
    case True
    then have "n = 0" by (simp add: div_eq_0_iff)
    then show ?thesis by simp
  next
    case False
    with "2.IH" have ih: "2 ^ (bit_length (Suc n div 2) - 1) \<le> Suc n div 2" by simp
    from False obtain m where m: "Suc n div 2 = Suc m" by (cases "Suc n div 2") simp_all
    then have "bit_length (Suc n div 2) \<noteq> 0" by simp
    then have "(2::nat) ^ bit_length (Suc n div 2) = 2 * 2 ^ (bit_length (Suc n div 2) - 1)"
      by (cases "bit_length (Suc n div 2)") simp_all
    with ih have "(2::nat) ^ bit_length (Suc n div 2) \<le> 2 * (Suc n div 2)" by simp
    also have "\<dots> \<le> Suc n" by simp
    finally show ?thesis by simp
  qed
qed

lemma bit_length_gt: "n < 2 ^ bit_length n"
proof (induction n rule: bit_length.induct)
  case 1
  then show ?case by simp
next
  case (2 n)
  then have "Suc n div 2 < 2 ^ bit_length (Suc n div 2)" by simp
  then have "Suc n < 2 * 2 ^ bit_length (Suc n div 2)" by linarith
  then show ?case by simp
qed

lemma round_at_ge: "(n div 2 ^ sh) * 2 ^ sh \<le> round_at sh n"
  by (simp add: round_at_def)

text \<open>Rounding sends no number but zero to zero, and every number from \<open>2^1024\<close> to infinity.\<close>

lemma to_double_positive:
  assumes "0 < n" and "to_double n = Some v"
  shows "0 < v"
proof (cases "n < 2 ^ 53")
  case True
  then show ?thesis using assms by (simp add: to_double_def)
next
  case False
  let ?sh = "bit_length n - 53"
  have "(2::nat) ^ ?sh \<le> 2 ^ (bit_length n - 1)"
    by (rule power_increasing) simp_all
  also from assms(1) have "\<dots> \<le> n" by (intro bit_length_le) simp
  finally have "1 \<le> n div 2 ^ ?sh"
    by (simp add: less_eq_div_iff_mult_less_eq)
  then have "0 < (n div 2 ^ ?sh) * 2 ^ ?sh" by simp
  with round_at_ge[of n ?sh] have "0 < round_at ?sh n" by linarith
  with False assms(2) show ?thesis
    by (simp add: to_double_def split: if_splits)
qed

lemma to_double_overflow:
  assumes "2 ^ 1024 \<le> n"
  shows "to_double n = None"
proof -
  let ?sh = "bit_length n - 53"
  from assms have n0: "n \<noteq> 0" by auto
  have "(2::nat) ^ 53 \<le> 2 ^ 1024" by (rule power_increasing) simp_all
  with assms have big: "\<not> n < 2 ^ 53" by linarith
  have "(2::nat) ^ 1024 < 2 ^ bit_length n"
    using assms bit_length_gt[of n] by linarith
  from power_less_imp_less_exp[OF _ this] have b: "1024 < bit_length n" by simp
  then have e: "bit_length n - 1 = 52 + ?sh" by simp
  from n0 have "2 ^ (52 + ?sh) \<le> n" unfolding e[symmetric] by (rule bit_length_le)
  then have "2 ^ 52 * 2 ^ ?sh \<le> n" by (simp add: power_add)
  then have "2 ^ 52 \<le> n div 2 ^ ?sh" by (simp add: less_eq_div_iff_mult_less_eq)
  then have "2 ^ 52 * 2 ^ ?sh \<le> (n div 2 ^ ?sh) * 2 ^ ?sh" by simp
  also have "\<dots> \<le> round_at ?sh n" by (rule round_at_ge)
  finally have "2 ^ (bit_length n - 1) \<le> round_at ?sh n"
    unfolding e by (simp add: power_add)
  moreover from b have "(2::nat) ^ 1024 \<le> 2 ^ (bit_length n - 1)"
    by (intro power_increasing) simp_all
  ultimately have "\<not> round_at ?sh n < 2 ^ 1024" by linarith
  with big show ?thesis by (simp add: to_double_def)
qed

lemma number_sign:
  assumes "0 < n"
  shows "number False n = PosInfinity \<or> (\<exists>m. 0 < m \<and> number False n = Finite m)"
    and "number True n = NegInfinity \<or> (\<exists>m. m < 0 \<and> number True n = Finite m)"
  using to_double_positive[OF assms]
  by (auto simp: number_def split: option.splits)



lemma validate_Some: "validate m = Some s \<Longrightarrow> m = JStr s \<and> 5 \<le> length (trim s)"
  by (cases m) (auto simp: validate_def split: if_splits)

subsection \<open>The race settles exactly once\<close>

lemma settle_race_open:
  assumes "race_open s"
  shows "race_result (settle_race env now t out s) = Some (t, out)
         \<and> settled_as env now t out (settle_race env now t out s)"
  using assms
  by (auto simp: race_open_def settle_race_def resume_def caught_def settled_as_def answer_def
           Let_def split: send_outcome.splits sum.splits)

lemma settle_race_done: "race_done env now s \<Longrightarrow> settle_race env now t out s = s"
  by (auto simp: race_done_def settle_race_def)

lemma settle_race_inv:
  "race_open s \<or> race_done env now s \<Longrightarrow> race_done env now (settle_race env now t out s)"
  using settle_race_open[of s env now t out] settle_race_done[of env now s t out]
  by (auto simp: race_done_def)

lemma settled_as_upd:
  "settled_as env now t out (s\<lparr>pending := p\<rparr>) = settled_as env now t out s"
  "settled_as env now t out (s\<lparr>armed := A\<rparr>) = settled_as env now t out s"
  "settled_as env now t out (s\<lparr>late_timers := L\<rparr>) = settled_as env now t out s"
  "settled_as env now t out (s\<lparr>abort_calls := n\<rparr>) = settled_as env now t out s"
  by (simp_all add: settled_as_def)

lemma race_done_upd:
  "race_done env now s \<Longrightarrow> race_done env now (s\<lparr>pending := p\<rparr>)"
  "race_done env now s \<Longrightarrow> race_done env now (s\<lparr>armed := A\<rparr>)"
  "race_done env now s \<Longrightarrow> race_done env now (s\<lparr>late_timers := L\<rparr>)"
  "race_done env now s \<Longrightarrow> race_done env now (s\<lparr>abort_calls := n\<rparr>)"
  by (simp_all add: race_done_def settled_as_upd)

lemma race_open_upd:
  "race_open s \<Longrightarrow> race_open (s\<lparr>pending := p\<rparr>)"
  "race_open s \<Longrightarrow> race_open (s\<lparr>armed := removeAll 1 (armed s)\<rparr>)"
  "race_open s \<Longrightarrow> race_open (s\<lparr>late_timers := L\<rparr>)"
  "race_open s \<Longrightarrow> race_open (s\<lparr>abort_calls := n\<rparr>)"
  by (auto simp: race_open_def)

lemma adapter_settles_inv:
  assumes "race_open s \<or> race_done env now s"
  shows "race_open (adapter_settles env now t out s) \<or> race_done env now (adapter_settles env now t out s)"
proof (cases "pending s")
  case True
  from assms have "race_open (s\<lparr>pending := False\<rparr>) \<or> race_done env now (s\<lparr>pending := False\<rparr>)"
    using race_open_upd(1) race_done_upd(1) by blast
  then show ?thesis using True by (simp add: adapter_settles_def settle_race_inv)
next
  case False
  then show ?thesis using assms by (simp add: adapter_settles_def)
qed

lemma fire_abort_inv:
  assumes "race_open s \<or> race_done env now s"
  shows "race_open (fire env now a 1 t s) \<or> race_done env now (fire env now a 1 t s)"
proof (cases "1 \<in> set (armed s)")
  case False
  then show ?thesis using assms by (simp add: fire_def)
next
  case True
  show ?thesis
  proof (cases "pending s \<and> on_abort a \<noteq> None")
    case False
    then show ?thesis
      using True assms
      by (auto simp: fire_def Let_def race_open_def race_done_def settled_as_def)
  next
    case react: True
    then obtain out where out: "on_abort a = Some out" by auto
    define s1 where "s1 = s\<lparr>armed := removeAll 1 (armed s),
      late_timers := (if reply s = None then late_timers s else late_timers s @ [1]),
      abort_calls := abort_calls s + 1, pending := False\<rparr>"
    have "race_open s1 \<or> race_done env now s1"
      using assms unfolding s1_def
      by (auto simp: race_open_def race_done_def settled_as_def)
    then have "race_done env now (settle_race env now t out s1)"
      by (rule settle_race_inv)
    moreover have "fire env now a 1 t s = settle_race env now t out s1"
      using True react out by (simp add: fire_def Let_def s1_def)
    ultimately show ?thesis by simp
  qed
qed

lemma fire_reject_done:
  assumes "race_open s \<or> race_done env now s"
  shows "race_done env now (fire env now a 2 t s)"
proof (cases "2 \<in> set (armed s)")
  case False
  then have "race_done env now s" using assms by (auto simp: race_open_def)
  then show ?thesis using False by (simp add: fire_def)
next
  case True
  define s0 where "s0 = s\<lparr>armed := removeAll 2 (armed s),
      late_timers := (if reply s = None then late_timers s else late_timers s @ [2])\<rparr>"
  from assms have "race_done env now (settle_race env now t (Rejects timeout_error) s0)"
  proof
    assume "race_open s"
    then have "race_result s0 = None" "reply s0 = None" "logged s0 = []"
      by (auto simp: race_open_def s0_def)
    then show ?thesis
      by (auto simp: race_done_def settle_race_def resume_def caught_def settled_as_def answer_def)
  next
    assume "race_done env now s"
    then have "race_done env now s0"
      unfolding s0_def by (simp add: race_done_upd)
    then show ?thesis by (simp add: settle_race_done)
  qed
  moreover have "fire env now a 2 t s = settle_race env now t (Rejects timeout_error) s0"
    using True by (simp add: fire_def Let_def s0_def)
  ultimately show ?thesis by simp
qed

lemma adapter_settles_done:
  "race_done env now s \<Longrightarrow> race_done env now (adapter_settles env now t out s)"
  using adapter_settles_inv[of s env now t out] 
  by (auto simp: race_open_def race_done_def adapter_settles_def settle_race_def)

lemma settle_own_simps:
  "own_settle a = None \<Longrightarrow> settle_own env now a due s = s"
  "own_settle a = Some (t, out) \<Longrightarrow>
     settle_own env now a due s = (if due t then adapter_settles env now t out s else s)"
  by (simp_all add: settle_own_def)

lemma settle_own_inv:
  assumes "race_open s \<or> race_done env now s"
  shows "race_open (settle_own env now a due s) \<or> race_done env now (settle_own env now a due s)"
proof (cases "own_settle a")
  case None
  then show ?thesis using assms by (simp add: settle_own_simps)
next
  case (Some p)
  obtain t out where "p = (t, out)" by (cases p)
  with Some show ?thesis
    using assms adapter_settles_inv[OF assms, of t out] by (simp add: settle_own_simps)
qed

lemma settle_own_done:
  assumes "race_done env now s"
  shows "race_done env now (settle_own env now a due s)"
proof (cases "own_settle a")
  case None
  then show ?thesis using assms by (simp add: settle_own_simps)
next
  case (Some p)
  obtain t out where "p = (t, out)" by (cases p)
  with Some show ?thesis
    using assms adapter_settles_done[OF assms, of t out] by (simp add: settle_own_simps)
qed

lemma run_race_done:
  assumes "race_open s"
  shows "race_done env now (run_race env now a s)"
proof -
  let ?s1 = "settle_own env now a (\<lambda>t. t < deadline) s"
  let ?s2 = "fire env now a 1 deadline ?s1"
  let ?s3 = "settle_own env now a (\<lambda>t. t = deadline) ?s2"
  let ?s4 = "fire env now a 2 deadline ?s3"
  have "race_open ?s1 \<or> race_done env now ?s1" using assms by (simp add: settle_own_inv)
  then have "race_open ?s2 \<or> race_done env now ?s2" by (rule fire_abort_inv)
  then have "race_open ?s3 \<or> race_done env now ?s3" by (rule settle_own_inv)
  then have "race_done env now ?s4" by (rule fire_reject_done)
  then show ?thesis unfolding run_race_def by (rule settle_own_done)
qed

lemma race_open_start: "race_open racing"
  by (simp add: race_open_def racing_def idle_def)

subsection \<open>Every path of the handler\<close>

lemma handler_cases:
  "(final (chat_handler env api now b)
      = idle\<lparr>reply := Some (0, \<lparr>status = 400, body = Failure invalid_message_text None\<rparr>)\<rparr>
    \<and> sdk_calls (chat_handler env api now b) = [])
   \<or> (\<exists>e. final (chat_handler env api now b) = caught env 0 e idle)
   \<or> race_done env now (final (chat_handler env api now b))"
  using run_race_done[OF race_open_start]
  by (auto simp: chat_handler_def Let_def split: sum.splits option.splits prod.splits)

lemma answer_cases:
  "(\<exists>e. answer env now t out = (catch_block env e, [e])
        \<and> (out = Rejects e \<or> (\<exists>r. out = Resolves r \<and> on_result env now t r = Inl e)))
   \<or> (\<exists>r resp. out = Resolves r \<and> on_result env now t r = Inr resp
        \<and> answer env now t out = (resp, []))"
  by (cases out) (auto simp: answer_def split: sum.splits)

lemma catch_block_failure: "\<not> success (body (catch_block env e))"
  by (simp add: catch_block_def)

lemma on_result_success: "on_result env now t r = Inr resp \<Longrightarrow> success (body resp)"
  by (auto simp: on_result_def split: option.splits sum.splits)

lemma handler_race:
  assumes "race_result (final (chat_handler env api now b)) = Some (t, out)"
  shows "settled_as env now t out (final (chat_handler env api now b))"
  using handler_cases[of env api now b] assms
  by (auto simp: idle_def caught_def race_done_def)

lemma handler_caught:
  assumes "logged (final (chat_handler env api now b)) = [e]"
  shows "\<exists>t. reply (final (chat_handler env api now b)) = Some (t, catch_block env e)"
proof -
  let ?s = "final (chat_handler env api now b)"
  from handler_cases[of env api now b] consider
      (invalid) "?s = idle\<lparr>reply := Some (0, \<lparr>status = 400, body = Failure invalid_message_text None\<rparr>)\<rparr>"
    | (early) e' where "?s = caught env 0 e' idle"
    | (race) "race_done env now ?s" by blast
  then show ?thesis
  proof cases
    case invalid
    then show ?thesis using assms by (simp add: idle_def)
  next
    case early
    then show ?thesis using assms by (simp add: caught_def idle_def)
  next
    case race
    then obtain t out where s: "reply ?s = Some (t, fst (answer env now t out))"
      "logged ?s = snd (answer env now t out)"
      by (auto simp: race_done_def settled_as_def)
    from answer_cases[of env now t out] s assms show ?thesis by auto
  qed
qed


lemma handler_failure:
  assumes "reply (final (chat_handler env api now b)) = Some (t, resp)" "\<not> success (body resp)"
  shows "(resp = \<lparr>status = 400, body = Failure invalid_message_text None\<rparr>
            \<and> logged (final (chat_handler env api now b)) = [])
         \<or> (\<exists>e. resp = catch_block env e \<and> logged (final (chat_handler env api now b)) = [e])"
proof -
  let ?s = "final (chat_handler env api now b)"
  from handler_cases[of env api now b] consider
      (invalid) "?s = idle\<lparr>reply := Some (0, \<lparr>status = 400, body = Failure invalid_message_text None\<rparr>)\<rparr>"
    | (early) e' where "?s = caught env 0 e' idle"
    | (race) "race_done env now ?s" by blast
  then show ?thesis
  proof cases
    case invalid
    then show ?thesis using assms by (auto simp: idle_def)
  next
    case early
    then show ?thesis using assms by (auto simp: caught_def idle_def)
  next
    case race
    then obtain t' out where s: "race_result ?s = Some (t', out)"
      "reply ?s = Some (t', fst (answer env now t' out))"
      "logged ?s = snd (answer env now t' out)"
      by (auto simp: race_done_def settled_as_def)
    from answer_cases[of env now t' out] s assms on_result_success show ?thesis by auto
  qed
qed

lemma handler_replies: "\<exists>t resp. reply (final (chat_handler env api now b)) = Some (t, resp)"
  using handler_cases[of env api now b]
  by (auto simp: idle_def caught_def race_done_def settled_as_def)

subsection \<open>The samples evaluated\<close>

lemma hello_fields:
  "destructure hello_body = Inr (JStr (js ''hello world''), JUndefined)"
  "validate (JStr (js ''hello world'')) = Some (js ''hello world'')"
  by (simp_all add: hello_body_def destructure_def validate_def trim_def is_js_whitespace_def
        js_def)

lemma handler_on_hello:
  "chat_handler env (sdk_with a) now hello_body =
     \<lparr>final = run_race env now a racing,
      sdk_calls = [GetGenerativeModel (modelName env) (js ''hello world''),
                   StartChat \<lparr>history = [], generation = generationConfig env,
                              safety = safetySettings\<rparr>,
                   SendMessage (js ''hello world'')]\<rparr>"
  by (simp add: chat_handler_def hello_fields map_history_def sdk_with_def)

lemma status_samples:
  "statusCode timeout_error = 504"
  "statusCode invalid_response_error = 500"
  "statusCode (Error (js ''This operation was aborted'')) = 500"
  "statusCode (Error (js ''fetch failed'')) = 500"
  "statusCode (Error (js ''invalid argument'')) = 400"
  by (simp_all add: statusCode_def timeout_error_def invalid_response_error_def js_def)

lemma includes_samples:
  "str_includes (message timeout_error) (js ''Timeout'')"
  "\<not> str_includes (message invalid_response_error) (js ''Timeout'')"
  "\<not> str_includes (message invalid_response_error) (js ''invalid'')"
  "\<not> str_includes (js ''This operation was aborted'') (js ''Timeout'')"
  "\<not> str_includes (js ''fetch failed'') (js ''Timeout'')"
  "\<not> str_includes (js ''invalid argument'') (js ''Timeout'')"
  by (simp_all add: timeout_error_def invalid_response_error_def js_def)

lemma catch_samples:
  "catch_block production_env e =
     \<lparr>status = statusCode e,
      body = Failure (if str_includes (message e) (js ''Timeout'') then timeout_text
                      else generic_text) None\<rparr>"
  "catch_block flash_env e =
     \<lparr>status = statusCode e,
      body = Failure (if str_includes (message e) (js ''Timeout'') then timeout_text
                      else generic_text) None\<rparr>"
  "catch_block development_env e =
     \<lparr>status = statusCode e,
      body = Failure (if str_includes (message e) (js ''Timeout'') then timeout_text
                      else generic_text) (Some (message e))\<rparr>"
  by (simp_all add: catch_block_def production_env_def flash_env_def development_env_def js_def)

lemma model_names:
  "modelName production_env = js ''gemini-pro''"
  "modelName development_env = js ''gemini-pro''"
  "modelName edge_env = js ''gemini-pro''"
  "modelName flash_env = js ''gemini-1.5-flash''"
  by (simp_all add: modelName_def js_or_def env_val_def production_env_def development_env_def
        edge_env_def flash_env_def js_def)

lemma sample_time: "toISOString 1700000000100 = js ''2023-11-14T22:13:20.100Z''"
  by (simp add: date_defs js_def)

lemma toISOString_samples:
  "toISOString 0 = js ''1970-01-01T00:00:00.000Z''"
  "toISOString 951782400000 = js ''2000-02-29T00:00:00.000Z''"
  "toISOString 1709251199999 = js ''2024-02-29T23:59:59.999Z''"
  "toISOString 4102444800000 = js ''2100-01-01T00:00:00.000Z''"
  "toISOString 253402300800000 = js ''+010000-01-01T00:00:00.000Z''"
  by (simp_all add: date_defs js_def)

lemma run_prompt:
  "run_race env now (prompt_adapter (Some compatible_result)) racing =
     \<lparr>armed = [], pending = False, abort_calls = 0,
      race_result = Some (100, Resolves (Some compatible_result)),
      reply = Some (100, \<lparr>status = 200,
                          body = Success \<lparr>data_response = js ''Compatible'',
                                          data_timestamp = toISOString (now + 100),
                                          data_model = modelName env,
                                          data_tokensUsed = JNum 12\<rparr>\<rparr>),
      logged = [], late_timers = [2]\<rparr>"
  by (simp add: race_defs prompt_adapter_def compatible_result_def tokensUsed_def js_or_def)


lemma run_no_result:
  "run_race env now (prompt_adapter None) racing =
     \<lparr>armed = [], pending = False, abort_calls = 0,
      race_result = Some (100, Resolves None),
      reply = Some (100, catch_block env invalid_response_error),
      logged = [invalid_response_error], late_timers = [2]\<rparr>"
  by (simp add: race_defs prompt_adapter_def del: catch_block_def)

lemma run_failing:
  "run_race env now (failing_adapter m) racing =
     \<lparr>armed = [], pending = False, abort_calls = 1,
      race_result = Some (100, Rejects (Error m)),
      reply = Some (100, catch_block env (Error m)),
      logged = [Error m], late_timers = [1, 2]\<rparr>"
  by (simp add: run_race_def settle_own_def fire_def settle_race_def adapter_settles_def
        resume_def caught_def idle_def racing_def deadline_def Let_def failing_adapter_def)

lemma run_silent:
  "run_race env now silent_adapter racing =
     \<lparr>armed = [], pending = True, abort_calls = 1,
      race_result = Some (15000, Rejects timeout_error),
      reply = Some (15000, catch_block env timeout_error),
      logged = [timeout_error], late_timers = []\<rparr>"
  by (simp add: run_race_def settle_own_def fire_def settle_race_def adapter_settles_def
        resume_def caught_def idle_def racing_def deadline_def Let_def silent_adapter_def)

lemma run_aborting:
  "run_race env now aborting_adapter racing =
     \<lparr>armed = [], pending = False, abort_calls = 1,
      race_result = Some (15000, Rejects (Error (js ''This operation was aborted''))),
      reply = Some (15000, catch_block env (Error (js ''This operation was aborted''))),
      logged = [Error (js ''This operation was aborted'')], late_timers = [2]\<rparr>"
  by (simp add: run_race_def settle_own_def fire_def settle_race_def adapter_settles_def
        resume_def caught_def idle_def racing_def deadline_def Let_def aborting_adapter_def)

subsection \<open>\<open>parseInt\<close> on decimal numerals\<close>

lemma digit_bounds: "48 \<le> unat (digit d)" "unat (digit d) \<le> 57"
proof -
  have "d mod 10 \<le> 9" by (simp add: less_Suc_eq_le[symmetric])
  then show "48 \<le> unat (digit d)" "unat (digit d) \<le> 57"
    by (simp_all add: unat_digit)
qed

lemma digit_value_digit: "digit_value (digit d) = d mod 10"
  using digit_range[of d] by (simp add: digit_value_def unat_digit)

lemma digit_not_space: "\<not> is_js_whitespace (digit d)"
  using digit_bounds[of d]
  by (auto simp: is_js_whitespace_def word_le_nat_alt word_unat_eq_iff)

lemma digit_not_sign:
  "digit d \<noteq> 0x2D" "digit d \<noteq> 0x2B" "digit d \<noteq> 0x78" "digit d \<noteq> 0x58"
  using digit_bounds[of d] by (auto simp: word_unat_eq_iff)

lemma digits_no_space:
  "ds \<noteq> [] \<Longrightarrow> dropWhile is_js_whitespace (map digit ds) = map digit ds"
  by (cases ds) (simp_all add: digit_not_space)

lemma digits_no_sign:
  "take (Suc 0) (map digit ds) \<noteq> js ''-''" "take (Suc 0) (map digit ds) \<noteq> js ''+''"
  by (cases ds; simp add: js_def digit_not_sign)+

lemma digits_no_hex:
  "take 2 (map digit ds) \<noteq> js ''0x''" "take 2 (map digit ds) \<noteq> js ''0X''"
proof -
  show "take 2 (map digit ds) \<noteq> js ''0x''"
  proof (cases ds)
    case (Cons d ds')
    then show ?thesis by (cases ds') (simp_all add: js_def digit_not_sign)
  qed (simp add: js_def)
  show "take 2 (map digit ds) \<noteq> js ''0X''"
  proof (cases ds)
    case (Cons d ds')
    then show ?thesis by (cases ds') (simp_all add: js_def digit_not_sign)
  qed (simp add: js_def)
qed

lemma digits_all_decimal:
  "takeWhile (\<lambda>c. digit_value c < 10) (map digit ds) = map digit ds"
  by (simp add: takeWhile_eq_all_conv digit_value_digit)

lemma digits_value:
  "foldl (\<lambda>a c. a * 10 + digit_value c) n (map digit ds) = foldl (\<lambda>a d. a * 10 + d mod 10) n ds"
  by (induction ds arbitrary: n) (simp_all add: digit_value_digit)

lemma parseInt_digits:
  assumes "ds \<noteq> []"
  shows "parseInt (map digit ds) = number False (decimal ds)"
  using assms
  by (simp add: parseInt_def Let_def digits_no_space digits_no_sign digits_no_hex
        digits_all_decimal digits_value decimal_def)

lemma parseInt_negative:
  assumes "ds \<noteq> []"
  shows "parseInt (js ''-'' @ map digit ds) = number True (decimal ds)"
proof -
  have m: "js ''-'' @ map digit ds = 0x2D # map digit ds" by (simp add: js_def)
  have w: "\<not> is_js_whitespace 0x2D" by (simp add: is_js_whitespace_def)
  have j: "js ''-'' = [0x2D]" by (simp add: js_def)
  show ?thesis
    using assms unfolding m
    by (simp add: parseInt_def Let_def w j digits_no_hex digits_all_decimal digits_value
          decimal_def)
qed

lemma parseInt_undefined: "parseInt (js ''undefined'') = NaN"
  by (simp add: parseInt_def Let_def js_def is_js_whitespace_def digit_value_def)

lemma max_tokens_truthy: "max_tokens env \<noteq> NaN" "max_tokens env \<noteq> Finite 0"
  by (simp_all add: max_tokens_def Let_def)

lemma max_tokens_unset: "MAX_TOKENS env = None \<Longrightarrow> max_tokens env = Finite 1000"
  by (simp add: max_tokens_def parseInt_undefined)

lemma number_zero: "number neg 0 = Finite 0"
  by (simp add: number_def to_double_def)

lemma number_not_NaN: "number neg n \<noteq> NaN"
  by (simp add: number_def split: option.splits)

lemma number_nonzero:
  assumes "0 < n"
  shows "number neg n \<noteq> Finite 0"
  using number_sign[OF assms] by (cases neg) auto

lemma max_tokens_digits:
  assumes "ds \<noteq> []" and "MAX_TOKENS env = Some (map digit ds)"
  shows "max_tokens env = (if decimal ds = 0 then Finite 1000 else number False (decimal ds))"
  using assms number_nonzero[of "decimal ds" False]
  by (simp add: max_tokens_def parseInt_digits number_zero number_not_NaN)

lemma max_tokens_negative:
  assumes "ds \<noteq> []" and "MAX_TOKENS env = Some (js ''-'' @ map digit ds)"
  shows "max_tokens env = (if decimal ds = 0 then Finite 1000 else number True (decimal ds))"
  using assms number_nonzero[of "decimal ds" True]
  by (simp add: max_tokens_def parseInt_negative number_zero number_not_NaN)

lemma handler_startChat:
  "StartChat p \<in> set (sdk_calls (chat_handler env api now b))
     \<Longrightarrow> generation p = generationConfig env"
  by (auto simp: chat_handler_def Let_def split: sum.splits option.splits prod.splits)

subsection \<open>Replies and the limiter\<close>

lemma texts_differ:
  "timeout_text \<noteq> generic_text" "timeout_text \<noteq> invalid_message_text"
  "timeout_text \<noteq> limit_text"
  by (simp_all add: timeout_text_def generic_text_def invalid_message_text_def limit_text_def
        js_def)

lemma api_chat_cases:
  "snd (api_chat env store rq) = chat_handler env (req_sdk rq) (arrival rq) (req_body rq)
   \<or> snd (api_chat env store rq) = limited"
  by (simp add: api_chat_def split: prod.splits bool.splits)

lemma status_504_iff: "statusCode e = 504 \<longleftrightarrow> str_includes (message e) (js ''Timeout'')"
  by (simp add: statusCode_def)

lemma counted:
  "snd (limiter_check q store k now) k =
     Some (case store k of
             None \<Rightarrow> \<lparr>count = 1, windowStart = now\<rparr>
           | Some w0 \<Rightarrow> if now < windowStart w0 + windowMs then w0\<lparr>count := count w0 + 1\<rparr>
                        else \<lparr>count = 1, windowStart = now\<rparr>)"
  "k' \<noteq> k \<Longrightarrow> snd (limiter_check q store k now) k' = store k'"
  by (simp_all add: limiter_check_def Let_def)

lemma passes_iff:
  "fst (limiter_check q store k now) \<longleftrightarrow>
     (\<exists>w. snd (limiter_check q store k now) k = Some w \<and> count w \<le> q)"
  by (simp add: limiter_check_def Let_def)

lemma api_chat_store:
  "fst (api_chat env store rq)
     = snd (limiter_check (API_REQUEST_LIMIT env) store (client rq) (arrival rq))"
  by (simp add: api_chat_def split: prod.splits bool.splits)

lemma api_chat_refused:
  "\<not> fst (limiter_check (API_REQUEST_LIMIT env) store (client rq) (arrival rq))
     \<Longrightarrow> snd (api_chat env store rq) = limited"
  by (auto simp: api_chat_def split: prod.splits bool.splits)

lemma serve_snoc: "serve env store (rqs @ [rq]) = fst (api_chat env (serve env store rqs) rq)"
  by (simp add: serve_def)

lemma serve_others:
  "requests_of c rqs = [] \<Longrightarrow> serve env store rqs c = store c"
proof (induction rqs rule: rev_induct)
  case Nil
  then show ?case by (simp add: serve_def)
next
  case (snoc x xs)
  then have "client x \<noteq> c" "requests_of c xs = []"
    by (auto simp: requests_of_def split: if_splits)
  with snoc.IH show ?case by (simp add: serve_snoc api_chat_store counted(2))
qed

lemma serve_window:
  assumes "store c = None \<or> (\<exists>w. store c = Some w \<and> windowStart w + windowMs \<le> arrival r0)"
    and "requests_of c rqs = r0 # rest"
    and "\<forall>r \<in> set rest. arrival r < arrival r0 + windowMs"
  shows "serve env store rqs c = Some \<lparr>count = Suc (length rest), windowStart = arrival r0\<rparr>"
  using assms(2,3)
proof (induction rqs arbitrary: rest rule: rev_induct)
  case Nil
  then show ?case by (simp add: requests_of_def)
next
  case (snoc x xs)
  show ?case
  proof (cases "client x = c")
    case False
    then have "requests_of c xs = r0 # rest"
      using snoc.prems(1) by (simp add: requests_of_def)
    from snoc.IH[OF this snoc.prems(2)] False show ?thesis
      by (simp add: serve_snoc api_chat_store counted(2))
  next
    case True
    then have split: "requests_of c xs @ [x] = r0 # rest"
      using snoc.prems(1) by (simp add: requests_of_def)
    show ?thesis
    proof (cases "requests_of c xs")
      case Nil
      then have x: "r0 = x" "rest = []" using split by simp_all
      have "serve env store xs c = store c" using Nil by (rule serve_others)
      then show ?thesis
        using assms(1) True x
        by (auto simp: serve_snoc api_chat_store counted(1))
    next
      case (Cons y ys)
      then have y: "y = r0" "rest = ys @ [x]" using split by simp_all
      have "\<forall>r \<in> set ys. arrival r < arrival r0 + windowMs"
        using snoc.prems(2) y by simp
      with snoc.IH[of ys] Cons y
      have "serve env store xs c = Some \<lparr>count = Suc (length ys), windowStart = arrival r0\<rparr>"
        by simp
      moreover have "arrival x < arrival r0 + windowMs" using snoc.prems(2) y by simp
      ultimately show ?thesis
        using True y by (simp add: serve_snoc api_chat_store counted(1))
    qed
  qed
qed

subsection \<open>Running a request again at another time\<close>

lemma settle_race_control:
  "armed (settle_race env now t out s) =
     (if race_result s = None
      then (case out of Resolves r \<Rightarrow> removeAll 1 (armed s) | Rejects e \<Rightarrow> armed s)
      else armed s)"
  "pending (settle_race env now t out s) = pending s"
  "race_result (settle_race env now t out s) =
     (if race_result s = None then Some (t, out) else race_result s)"
  by (auto simp: settle_race_def resume_def caught_def Let_def
           split: send_outcome.splits sum.splits)

lemma same_control_settle:
  "same_control s s' \<Longrightarrow>
     same_control (settle_race env now t out s) (settle_race env' now' t out s')"
  by (cases out) (simp_all add: same_control_def settle_race_control)

lemma same_control_adapter:
  "same_control s s' \<Longrightarrow>
     same_control (adapter_settles env now t out s) (adapter_settles env' now' t out s')"
proof -
  assume a: "same_control s s'"
  then have "same_control (s\<lparr>pending := False\<rparr>) (s'\<lparr>pending := False\<rparr>)"
    by (simp add: same_control_def)
  then have "same_control (settle_race env now t out (s\<lparr>pending := False\<rparr>))
               (settle_race env' now' t out (s'\<lparr>pending := False\<rparr>))"
    by (rule same_control_settle)
  with a show ?thesis by (simp add: adapter_settles_def same_control_def)
qed

lemma same_control_fire:
  assumes "same_control s s'"
  shows "same_control (fire env now a i t s) (fire env' now' a i t s')"
proof (cases "i \<in> set (armed s)")
  case False
  then show ?thesis using assms by (simp add: fire_def same_control_def)
next
  case True
  define u where "u = s\<lparr>armed := removeAll i (armed s),
      late_timers := (if reply s = None then late_timers s else late_timers s @ [i])\<rparr>"
  define u' where "u' = s'\<lparr>armed := removeAll i (armed s'),
      late_timers := (if reply s' = None then late_timers s' else late_timers s' @ [i])\<rparr>"
  have uu: "same_control u u'" using assms by (simp add: same_control_def u_def u'_def)
  have True': "i \<in> set (armed s')" using True assms by (simp add: same_control_def)
  show ?thesis
  proof (cases "i = 1")
    case False
    have "fire env now a i t s = settle_race env now t (Rejects timeout_error) u"
      "fire env' now' a i t s' = settle_race env' now' t (Rejects timeout_error) u'"
      using True True' False by (simp_all add: fire_def Let_def u_def u'_def)
    then show ?thesis using same_control_settle[OF uu] by simp
  next
    case one: True
    define v where "v = u\<lparr>abort_calls := abort_calls u + 1\<rparr>"
    define v' where "v' = u'\<lparr>abort_calls := abort_calls u' + 1\<rparr>"
    have vv: "same_control v v'" using uu by (simp add: same_control_def v_def v'_def)
    then have pp: "same_control (v\<lparr>pending := False\<rparr>) (v'\<lparr>pending := False\<rparr>)"
      by (simp add: same_control_def)
    have p: "pending v = pending v'" using vv by (simp add: same_control_def)
    show ?thesis
    proof (cases "on_abort a")
      case None
      have "fire env now a i t s = v" "fire env' now' a i t s' = v'"
        using True True' one None by (simp_all add: fire_def Let_def u_def u'_def v_def v'_def)
      then show ?thesis using vv by simp
    next
      case (Some out)
      have "fire env now a i t s =
              (if pending v then settle_race env now t out (v\<lparr>pending := False\<rparr>) else v)"
        "fire env' now' a i t s' =
              (if pending v' then settle_race env' now' t out (v'\<lparr>pending := False\<rparr>) else v')"
        using True True' one Some by (simp_all add: fire_def Let_def u_def u'_def v_def v'_def)
      then show ?thesis using vv p same_control_settle[OF pp] by simp
    qed
  qed
qed

lemma same_control_own:
  assumes "same_control s s'"
  shows "same_control (settle_own env now a due s) (settle_own env' now' a due s')"
proof (cases "own_settle a")
  case None
  then show ?thesis using assms by (simp add: settle_own_simps)
next
  case (Some p)
  obtain t out where "p = (t, out)" by (cases p)
  with Some show ?thesis
    using assms same_control_adapter[OF assms, of env now t out env' now']
    by (simp add: settle_own_simps)
qed

lemma same_control_run:
  assumes "same_control s s'"
  shows "same_control (run_race env now a s) (run_race env' now' a s')"
  unfolding run_race_def
  by (intro same_control_own same_control_fire assms)

lemma answer_rerun:
  "snd (answer env now' t out) = snd (answer env now t out)"
  "status (fst (answer env now' t out)) = status (fst (answer env now t out))"
  by (auto simp: answer_def on_result_def split: send_outcome.splits option.splits sum.splits)

lemma run_race_rerun:
  "logged (run_race env now' a racing) = logged (run_race env now a racing)
   \<and> map_option (status \<circ> snd) (reply (run_race env now' a racing))
       = map_option (status \<circ> snd) (reply (run_race env now a racing))"
proof -
  have "same_control racing racing" by (simp add: same_control_def)
  then have c: "race_result (run_race env now' a racing) = race_result (run_race env now a racing)"
    using same_control_run[of racing racing env now' a env now] by (simp add: same_control_def)
  from run_race_done[OF race_open_start, of env now a]
  obtain t out where 1: "race_result (run_race env now a racing) = Some (t, out)"
    "settled_as env now t out (run_race env now a racing)"
    by (auto simp: race_done_def)
  from run_race_done[OF race_open_start, of env now' a] c 1(1)
  have 2: "settled_as env now' t out (run_race env now' a racing)"
    by (auto simp: race_done_def)
  from 1(2) 2 show ?thesis
    by (simp add: settled_as_def answer_rerun)
qed

lemma handler_rerun:
  "logged (final (chat_handler env api now' b)) = logged (final (chat_handler env api now b))
   \<and> map_option (status \<circ> snd) (reply (final (chat_handler env api now' b)))
       = map_option (status \<circ> snd) (reply (final (chat_handler env api now b)))"
  using run_race_rerun
  by (simp add: chat_handler_def Let_def split: sum.splits option.splits prod.splits)

subsection \<open>The ways the race ends\<close>

text \<open>
  A call that is still pending after the deadline and pays no attention to the signal:
  both timers fire, \<open>controller.abort()\<close> is called once and the handler answers 504 at
  the deadline.
\<close>

lemma timeout_when_signal_ignored:
  assumes "on_abort a = None"
    and "own_settle a = None \<or> (\<exists>t out. own_settle a = Some (t, out) \<and> deadline < t)"
  shows "reply (run_race env now a racing)
           = Some (deadline, \<lparr>status = 504, body = Failure timeout_text
                (if NODE_ENV env = Some (js ''development'') then Some (message timeout_error)
                 else None)\<rparr>)
         \<and> abort_calls (run_race env now a racing) = 1
         \<and> late_timers (run_race env now a racing) = []"
proof -
  have i: "str_includes (message timeout_error) (js ''Timeout'')"
    by (simp add: timeout_error_def js_def)
  from assms(2) show ?thesis
  proof
    assume "own_settle a = None"
    then show ?thesis
      using assms(1) i
      by (simp add: run_race_def settle_own_simps fire_def settle_race_def resume_def
            caught_def catch_block_def statusCode_def idle_def racing_def Let_def)
  next
    assume "\<exists>t out. own_settle a = Some (t, out) \<and> deadline < t"
    then obtain t out where "own_settle a = Some (t, out)" "deadline < t" by blast
    then show ?thesis
      using assms(1) i
      by (simp add: run_race_def settle_own_simps fire_def settle_race_def adapter_settles_def
            resume_def caught_def catch_block_def statusCode_def idle_def racing_def Let_def)
  qed
qed

text \<open>
  A call that is still pending at the deadline and rejects when the signal aborts: the
  rejection wins the race before timer 2 fires, so the status is the one of the abort
  error, and timer 2 fires after the reply.
\<close>

lemma abort_reaction_wins_race:
  assumes "on_abort a = Some (Rejects e)"
    and "own_settle a = None \<or> (\<exists>t out. own_settle a = Some (t, out) \<and> deadline \<le> t)"
  shows "reply (run_race env now a racing) = Some (deadline, catch_block env e)
         \<and> abort_calls (run_race env now a racing) = 1
         \<and> late_timers (run_race env now a racing) = [2]"
proof -
  from assms(2) show ?thesis
  proof
    assume "own_settle a = None"
    then show ?thesis
      using assms(1)
      by (simp add: run_race_def settle_own_simps fire_def settle_race_def resume_def
            caught_def idle_def racing_def Let_def)
  next
    assume "\<exists>t out. own_settle a = Some (t, out) \<and> deadline \<le> t"
    then obtain t out where "own_settle a = Some (t, out)" "deadline \<le> t" by blast
    then show ?thesis
      using assms(1)
      by (simp add: run_race_def settle_own_simps fire_def settle_race_def adapter_settles_def
            resume_def caught_def idle_def racing_def Let_def)
  qed
qed

text \<open>
  A call that ignores the signal and settles by itself at exactly the deadline, through a
  timer that \<open>sendMessage\<close> armed: the abort is called first, then the call settles and
  wins the race with its own outcome, and timer 2 fires after the reply.
\<close>

lemma settled_at_deadline:
  assumes "on_abort a = None" and "own_settle a = Some (deadline, out)"
  shows "race_result (run_race env now a racing) = Some (deadline, out)
         \<and> abort_calls (run_race env now a racing) = 1
         \<and> late_timers (run_race env now a racing) = [2]"
  using assms
  by (cases out)
     (auto simp: run_race_def settle_own_simps fire_def settle_race_def adapter_settles_def
        resume_def caught_def idle_def racing_def Let_def split: sum.splits)

text \<open>
  A call that settles by itself before the deadline wins the race with its own outcome.
  Timer 2 is never disarmed and fires after the reply; after a rejection timer 1 is left
  armed as well, so \<open>controller.abort()\<close> is called on the finished call.
\<close>

lemma settled_before_deadline:
  assumes "own_settle a = Some (t, out)" and "t < deadline"
  shows "race_result (run_race env now a racing) = Some (t, out)
         \<and> 2 \<in> set (late_timers (run_race env now a racing))
         \<and> abort_calls (run_race env now a racing)
             = (case out of Resolves r \<Rightarrow> 0 | Rejects e \<Rightarrow> 1)"
  using assms
  by (cases out)
     (auto simp: run_race_def settle_own_simps fire_def settle_race_def adapter_settles_def
        resume_def caught_def idle_def racing_def Let_def split: sum.splits)

subsection \<open>Claims\<close>

text \<open>
  C1. The claim: whenever the call has not resolved within 15 seconds, the handler answers
  HTTP 504 at 15 seconds and \<open>controller.abort()\<close> is called exactly once. The code arms
  the aborting timer before the rejecting timer, with the same delay. For a call that
  honours the signal the abort comes first: the call rejects with its abort error, that
  rejection wins the race, and since its message does not contain \<open>Timeout\<close> the handler
  answers 500. The abort is called once.
\<close>
theorem abort_honoured_reply:
  "final (chat_handler production_env (sdk_with aborting_adapter) 1700000000000 hello_body) =
     \<lparr>armed = [], pending = False, abort_calls = 1,
      race_result = Some (15000, Rejects (Error (js ''This operation was aborted''))),
      reply = Some (15000, \<lparr>status = 500, body = Failure generic_text None\<rparr>),
      logged = [Error (js ''This operation was aborted'')], late_timers = [2]\<rparr>"
  by (simp add: handler_on_hello run_aborting catch_samples status_samples includes_samples)

text \<open>
  C2. The claim: when the call settles within the deadline the handler returns that result
  or failure, and every timer it armed is disarmed, so that none fires afterwards. The
  result is returned, but timer 2 has no handle and is never cleared: it fires at 15
  seconds, after the reply. When the call rejects, \<open>clearTimeout(timeout)\<close> is skipped too,
  so timer 1 fires and aborts the call that has already failed.
\<close>
theorem reject_timer_fires_after_reply:
  "final (chat_handler production_env (sdk_with (prompt_adapter (Some compatible_result)))
            1700000000000 hello_body) =
     \<lparr>armed = [], pending = False, abort_calls = 0,
      race_result = Some (100, Resolves (Some compatible_result)),
      reply = Some (100, \<lparr>status = 200,
                          body = Success \<lparr>data_response = js ''Compatible'',
                                          data_timestamp = js ''2023-11-14T22:13:20.100Z'',
                                          data_model = js ''gemini-pro'',
                                          data_tokensUsed = JNum 12\<rparr>\<rparr>),
      logged = [], late_timers = [2]\<rparr>
   \<and> final (chat_handler production_env (sdk_with (failing_adapter (js ''fetch failed'')))
            1700000000000 hello_body) =
     \<lparr>armed = [], pending = False, abort_calls = 1,
      race_result = Some (100, Rejects (Error (js ''fetch failed''))),
      reply = Some (100, \<lparr>status = 500, body = Failure generic_text None\<rparr>),
      logged = [Error (js ''fetch failed'')], late_timers = [1, 2]\<rparr>"
  by (simp add: handler_on_hello run_prompt run_failing catch_samples status_samples
        includes_samples model_names sample_time)




text \<open>
  C4. Every failure that reaches the \<open>catch\<close> block is answered with exactly one status,
  decided by the error message alone: 504 when it contains \<open>Timeout\<close>, otherwise 400
  when it contains \<open>invalid\<close>, otherwise 500. Running the same request against the same
  SDK behaviour at another time catches the same error and answers the same status.
\<close>
theorem failure_classification:
  assumes "logged (final (chat_handler env api now b)) = [e]"
  shows "(\<exists>t resp. reply (final (chat_handler env api now b)) = Some (t, resp)
            \<and> status resp = (if str_includes (message e) (js ''Timeout'') then 504
                              else if str_includes (message e) (js ''invalid'') then 400
                              else 500))
         \<and> logged (final (chat_handler env api now' b)) = [e]
         \<and> map_option (status \<circ> snd) (reply (final (chat_handler env api now' b)))
             = map_option (status \<circ> snd) (reply (final (chat_handler env api now b)))"
  using handler_caught[OF assms] handler_rerun[of env api now' b now] assms
  by (auto simp: catch_block_def statusCode_def)

theorem failure_classification_witness:
  "\<exists>t resp. reply (final (chat_handler production_env
                 (sdk_with (failing_adapter (js ''invalid argument''))) 0 hello_body))
               = Some (t, resp) \<and> status resp = 400"
proof -
  have "logged (final (chat_handler production_env
           (sdk_with (failing_adapter (js ''invalid argument''))) 0 hello_body))
          = [Error (js ''invalid argument'')]"
    by (simp add: handler_on_hello run_failing)
  from failure_classification[OF this] show ?thesis
    using status_samples(5) by (simp add: statusCode_def)
qed

text \<open>
  C5. With a quota of \<open>N\<close> requests per window of one hour, let \<open>r0\<close> be the request of a
  client that opens its window and let \<open>N\<close> further requests of that client arrive within
  the window, other clients' requests in between or not. The last of them, the
  \<open>(N+1)\<close>-th, is answered 429 with \<open>success: false\<close> by the limiter: the handler does
  not run, so nothing is validated and the SDK is not called, whatever the body.
\<close>
theorem quota_exceeded:
  assumes "client rq = c"
    and "requests_of c (rqs @ [rq]) = r0 # rest"
    and "length rest = API_REQUEST_LIMIT env"
    and "\<forall>r \<in> set rest. arrival r < arrival r0 + windowMs"
    and "store c = None \<or> (\<exists>w. store c = Some w \<and> windowStart w + windowMs \<le> arrival r0)"
  shows "snd (api_chat env (serve env store rqs) rq)
           = \<lparr>final = idle\<lparr>reply := Some (0, \<lparr>status = 429,
                                                  body = Failure limit_text None\<rparr>)\<rparr>,
              sdk_calls = []\<rparr>
         \<and> snd (api_chat env (serve env store rqs) (rq\<lparr>req_body := b\<rparr>))
           = snd (api_chat env (serve env store rqs) rq)"
proof -
  have "serve env store (rqs @ [rq]) c
          = Some \<lparr>count = Suc (API_REQUEST_LIMIT env), windowStart = arrival r0\<rparr>"
    using serve_window[where store = store and c = c, OF assms(5) assms(2) assms(4)] assms(3)
    by simp
  then have "snd (limiter_check (API_REQUEST_LIMIT env) (serve env store rqs) c (arrival rq)) c
          = Some \<lparr>count = Suc (API_REQUEST_LIMIT env), windowStart = arrival r0\<rparr>"
    using assms(1) by (simp add: serve_snoc api_chat_store)
  then have n: "\<not> fst (limiter_check (API_REQUEST_LIMIT env) (serve env store rqs) c (arrival rq))"
    by (simp add: passes_iff)
  from n assms(1) have "snd (api_chat env (serve env store rqs) rq) = limited"
    by (simp add: api_chat_refused)
  moreover from n assms(1)
  have "snd (api_chat env (serve env store rqs) (rq\<lparr>req_body := b\<rparr>)) = limited"
    by (simp add: api_chat_refused)
  ultimately show ?thesis by (simp add: limited_def)
qed

theorem quota_exceeded_witness:
  "snd (api_chat flash_env
         (serve flash_env Map.empty
            [sample_request 0 hello_body silent_adapter,
             sample_request 1000 short_body silent_adapter])
         (sample_request 2000 hello_body silent_adapter))
     = \<lparr>final = idle\<lparr>reply := Some (0, \<lparr>status = 429, body = Failure limit_text None\<rparr>)\<rparr>,
        sdk_calls = []\<rparr>
   \<and> API_REQUEST_LIMIT flash_env = 2"
proof -
  let ?r0 = "sample_request 0 hello_body silent_adapter"
  let ?r1 = "sample_request 1000 short_body silent_adapter"
  let ?r2 = "sample_request 2000 hello_body silent_adapter"
  have 1: "client ?r2 = 7" by (simp add: sample_request_def)
  have 2: "requests_of 7 ([?r0, ?r1] @ [?r2]) = ?r0 # [?r1, ?r2]"
    by (simp add: requests_of_def sample_request_def)
  have 3: "length [?r1, ?r2] = API_REQUEST_LIMIT flash_env"
    by (simp add: API_REQUEST_LIMIT_def flash_env_def)
  have 4: "\<forall>r \<in> set [?r1, ?r2]. arrival r < arrival ?r0 + windowMs"
    by (simp add: sample_request_def windowMs_def)
  have 5: "Map.empty (7::nat) = None
           \<or> (\<exists>w. Map.empty (7::nat) = Some w \<and> windowStart w + windowMs \<le> arrival ?r0)"
    by simp
  from quota_exceeded[where store = Map.empty and c = 7, OF 1 2 3 4 5] 3 show ?thesis by simp
qed

text \<open>
  C6, as amended. The message of the caught error is sent as \<open>details\<close> exactly when
  \<open>NODE_ENV\<close> is \<open>development\<close> and the failure reached the \<open>catch\<close> block, whatever
  its status (504, 400 or 500); replies to an invalid message and replies of the limiter
  carry no details. In every mode the \<open>error\<close> text is fixed by the kind of the failure
  and does not depend on the message of the caught error: the text of the limiter for
  429, the timeout text for 504, the text that names the minimum length for the 400 of
  the validation, and the generic text for the 400 and the 500 of the \<open>catch\<close> block.
\<close>
theorem error_details_disclosure:
  assumes "reply (final (snd (api_chat env store rq))) = Some (t, resp)"
    and "\<not> success (body resp)"
  shows "status resp \<in> {429, 400, 504, 500}
         \<and> error_text (body resp)
             = Some (if status resp = 429 then limit_text
                     else if status resp = 504 then timeout_text
                     else if status resp = 400
                             \<and> logged (final (snd (api_chat env store rq))) = []
                          then invalid_message_text
                     else generic_text)
         \<and> error_text (body resp)
           \<in> {Some limit_text, Some invalid_message_text, Some timeout_text, Some generic_text}
         \<and> (error_text (body resp) = Some timeout_text \<longleftrightarrow> status resp = 504)
         \<and> details (body resp) =
             (case logged (final (snd (api_chat env store rq))) of
                [] \<Rightarrow> None
              | e # es \<Rightarrow> if NODE_ENV env = Some (js ''development'') then Some (message e)
                          else None)"
proof -
  from api_chat_cases[of env store rq] show ?thesis
  proof
    assume h: "snd (api_chat env store rq)
                 = chat_handler env (req_sdk rq) (arrival rq) (req_body rq)"
    from handler_failure[of env "req_sdk rq" "arrival rq" "req_body rq" t resp] assms h
    consider (invalid) "resp = \<lparr>status = 400, body = Failure invalid_message_text None\<rparr>"
        "logged (final (snd (api_chat env store rq))) = []"
      | (caught) e where "resp = catch_block env e"
        "logged (final (snd (api_chat env store rq))) = [e]"
      by auto
    then show ?thesis
    proof cases
      case invalid
      then show ?thesis using texts_differ by simp
    next
      case caught
      then show ?thesis
        using texts_differ
        by (simp add: catch_block_def statusCode_def)
    qed
  next
    assume "snd (api_chat env store rq) = limited"
    then show ?thesis using assms texts_differ by (auto simp: limited_def idle_def)
  qed
qed

theorem error_details_disclosure_witness:
  "\<exists>t resp. reply (final (snd (api_chat development_env Map.empty
                 (sample_request 0 hello_body (failing_adapter (js ''invalid argument''))))))
               = Some (t, resp)
           \<and> status resp = 400
           \<and> error_text (body resp) = Some generic_text
           \<and> details (body resp) = Some (js ''invalid argument'')"
proof -
  let ?rq = "sample_request 0 hello_body (failing_adapter (js ''invalid argument''))"
  let ?resp = "catch_block development_env (Error (js ''invalid argument''))"
  have s: "snd (api_chat development_env Map.empty ?rq)
             = chat_handler development_env (sdk_with (failing_adapter (js ''invalid argument'')))
                 0 hello_body"
    by (simp add: api_chat_def limiter_check_def sample_request_def API_REQUEST_LIMIT_def
          development_env_def)
  have r: "reply (final (snd (api_chat development_env Map.empty ?rq))) = Some (100, ?resp)"
    and l: "logged (final (snd (api_chat development_env Map.empty ?rq)))
             = [Error (js ''invalid argument'')]"
    by (simp_all add: s handler_on_hello run_failing)
  have f: "\<not> success (body ?resp)"
    by (rule catch_block_failure)
  have n: "NODE_ENV development_env = Some (js ''development'')"
    by (simp add: development_env_def)
  from error_details_disclosure[OF r f]
  have "details (body ?resp) = Some (js ''invalid argument'')"
    by (simp add: l n)
  moreover have "status ?resp = 400" "error_text (body ?resp) = Some generic_text"
    by (simp_all add: catch_samples status_samples includes_samples)
  ultimately show ?thesis using r by blast
qed

text \<open>
  The claim C6 as stated, that details are sent only for the internal error kind, fails:
  in development mode a timeout is answered 504 with the internal message as details.
\<close>
theorem timeout_details_counterexample:
  "reply (final (chat_handler development_env (sdk_with silent_adapter) 1700000000000
            hello_body))
     = Some (15000, \<lparr>status = 504,
                      body = Failure timeout_text (Some (js ''Timeout na resposta da API''))\<rparr>)"
  by (simp add: handler_on_hello run_silent catch_samples status_samples includes_samples)
     (simp add: timeout_error_def)




text \<open>
  C8, as amended. Every session is started with a generation configuration built from the
  environment alone, whatever the request and the state of the limiter: temperature 0.7
  and \<open>maxOutputTokens\<close> equal to \<open>parseInt(MAX_TOKENS)\<close> when that is neither \<open>NaN\<close> nor
  zero, 1000 otherwise. It is 1000 for an unset variable; for an unsigned decimal numeral
  it is the double nearest to the numeral's value (1000 for the value zero), which is the
  value itself below \<open>2^53\<close> and is positive or infinite in every case; for a negative
  numeral it is the negative of that, negative or minus infinity.
\<close>
theorem generation_config_per_request:
  assumes "StartChat p \<in> set (sdk_calls (snd (api_chat env store rq)))"
  shows "generation p = generationConfig env
         \<and> temperature (generation p) = 7 / 10
         \<and> maxOutputTokens (generation p) \<noteq> NaN
         \<and> maxOutputTokens (generation p) \<noteq> Finite 0
         \<and> (MAX_TOKENS env = None \<longrightarrow> maxOutputTokens (generation p) = Finite 1000)
         \<and> (\<forall>ds. ds \<noteq> [] \<and> MAX_TOKENS env = Some (map digit ds) \<longrightarrow>
               maxOutputTokens (generation p)
                 = (if decimal ds = 0 then Finite 1000 else number False (decimal ds))
               \<and> (maxOutputTokens (generation p) = PosInfinity
                    \<or> (\<exists>m. 0 < m \<and> maxOutputTokens (generation p) = Finite m))
               \<and> (decimal ds < 2 ^ 53 \<longrightarrow>
                     maxOutputTokens (generation p)
                       = Finite (if decimal ds = 0 then 1000 else int (decimal ds)))
               \<and> (2 ^ 1024 \<le> decimal ds \<longrightarrow> maxOutputTokens (generation p) = PosInfinity))
         \<and> (\<forall>ds. ds \<noteq> [] \<and> decimal ds \<noteq> 0 \<and> MAX_TOKENS env = Some (js ''-'' @ map digit ds) \<longrightarrow>
               maxOutputTokens (generation p) = number True (decimal ds)
               \<and> (maxOutputTokens (generation p) = NegInfinity
                    \<or> (\<exists>m. m < 0 \<and> maxOutputTokens (generation p) = Finite m))
               \<and> (decimal ds < 2 ^ 53 \<longrightarrow>
                     maxOutputTokens (generation p) = Finite (- int (decimal ds))))"
proof -
  have g: "generation p = generationConfig env"
    using assms api_chat_cases[of env store rq] handler_startChat
    by (auto simp: limited_def idle_def)
  have m: "maxOutputTokens (generationConfig env) = max_tokens env"
    by (simp add: generationConfig_def)
  have t: "temperature (generationConfig env) = 7 / 10"
    by (simp add: generationConfig_def)
  have u: "\<forall>ds. ds \<noteq> [] \<and> MAX_TOKENS env = Some (map digit ds) \<longrightarrow>
               max_tokens env
                 = (if decimal ds = 0 then Finite 1000 else number False (decimal ds))
               \<and> (max_tokens env = PosInfinity \<or> (\<exists>m. 0 < m \<and> max_tokens env = Finite m))
               \<and> (decimal ds < 2 ^ 53 \<longrightarrow>
                     max_tokens env = Finite (if decimal ds = 0 then 1000 else int (decimal ds)))
               \<and> (2 ^ 1024 \<le> decimal ds \<longrightarrow> max_tokens env = PosInfinity)"
  proof (intro allI impI, elim conjE)
    fix ds
    assume d: "ds \<noteq> []" "MAX_TOKENS env = Some (map digit ds)"
    note e = max_tokens_digits[OF d]
    show "max_tokens env
                 = (if decimal ds = 0 then Finite 1000 else number False (decimal ds))
               \<and> (max_tokens env = PosInfinity \<or> (\<exists>m. 0 < m \<and> max_tokens env = Finite m))
               \<and> (decimal ds < 2 ^ 53 \<longrightarrow>
                     max_tokens env = Finite (if decimal ds = 0 then 1000 else int (decimal ds)))
               \<and> (2 ^ 1024 \<le> decimal ds \<longrightarrow> max_tokens env = PosInfinity)"
    proof (cases "decimal ds = 0")
      case True
      with e show ?thesis by simp
    next
      case False
      then have p: "0 < decimal ds" by simp
      from False e have e': "max_tokens env = number False (decimal ds)" by simp
      have "2 ^ 1024 \<le> decimal ds \<longrightarrow> number False (decimal ds) = PosInfinity"
        by (simp add: number_def to_double_overflow)
      with False number_sign(1)[OF p] number_exact(1)[of "decimal ds"] show ?thesis
        unfolding e' by simp
    qed
  qed
  have n: "\<forall>ds. ds \<noteq> [] \<and> decimal ds \<noteq> 0 \<and> MAX_TOKENS env = Some (js ''-'' @ map digit ds) \<longrightarrow>
               max_tokens env = number True (decimal ds)
               \<and> (max_tokens env = NegInfinity \<or> (\<exists>m. m < 0 \<and> max_tokens env = Finite m))
               \<and> (decimal ds < 2 ^ 53 \<longrightarrow> max_tokens env = Finite (- int (decimal ds)))"
  proof (intro allI impI, elim conjE)
    fix ds
    assume d: "ds \<noteq> []" "MAX_TOKENS env = Some (js ''-'' @ map digit ds)"
      and z: "decimal ds \<noteq> 0"
    then have p: "0 < decimal ds" by simp
    from max_tokens_negative[OF d] z have e': "max_tokens env = number True (decimal ds)"
      by simp
    from number_sign(2)[OF p] number_exact(2)[of "decimal ds"]
    show "max_tokens env = number True (decimal ds)
               \<and> (max_tokens env = NegInfinity \<or> (\<exists>m. m < 0 \<and> max_tokens env = Finite m))
               \<and> (decimal ds < 2 ^ 53 \<longrightarrow> max_tokens env = Finite (- int (decimal ds)))"
      unfolding e' by simp
  qed
  from u n max_tokens_truthy[of env] max_tokens_unset[of env] show ?thesis
    unfolding g m t by blast
qed

theorem generation_config_per_request_witness:
  "maxOutputTokens (generationConfig flash_env) = Finite 2048
   \<and> temperature (generationConfig flash_env) = 7 / 10"
proof -
  let ?p = "\<lparr>history = [], generation = generationConfig flash_env, safety = safetySettings\<rparr>"
  let ?rq = "sample_request 0 hello_body silent_adapter"
  have s: "snd (api_chat flash_env Map.empty ?rq)
             = chat_handler flash_env (sdk_with silent_adapter) 0 hello_body"
    by (simp add: api_chat_def limiter_check_def sample_request_def API_REQUEST_LIMIT_def
          flash_env_def)
  have c: "StartChat ?p \<in> set (sdk_calls (snd (api_chat flash_env Map.empty ?rq)))"
    by (simp add: s handler_on_hello)
  have m: "MAX_TOKENS flash_env = Some (map digit [2, 0, 4, 8])"
    by (simp add: flash_env_def js_def digit_def)
  have d: "decimal [2, 0, 4, 8] = 2048" by (simp add: decimal_def)
  from generation_config_per_request[OF c]
  have a: "\<forall>ds. ds \<noteq> [] \<and> MAX_TOKENS flash_env = Some (map digit ds) \<longrightarrow>
               maxOutputTokens (generation ?p)
                 = (if decimal ds = 0 then Finite 1000 else number False (decimal ds))
               \<and> (maxOutputTokens (generation ?p) = PosInfinity
                    \<or> (\<exists>m. 0 < m \<and> maxOutputTokens (generation ?p) = Finite m))
               \<and> (decimal ds < 2 ^ 53 \<longrightarrow>
                     maxOutputTokens (generation ?p)
                       = Finite (if decimal ds = 0 then 1000 else int (decimal ds)))
               \<and> (2 ^ 1024 \<le> decimal ds \<longrightarrow> maxOutputTokens (generation ?p) = PosInfinity)"
    and t: "temperature (generation ?p) = 7 / 10"
    by blast+
  have "[2, 0, 4, 8] \<noteq> ([] :: nat list)" by simp
  with a m have "decimal [2, 0, 4, 8] < 2 ^ 53 \<longrightarrow>
                  maxOutputTokens (generation ?p)
                   = Finite (if decimal [2, 0, 4, 8] = 0 then 1000 else int (decimal [2, 0, 4, 8]))"
    by blast
  with t d show ?thesis by simp
qed

text \<open>
  The claim C8 as stated, that \<open>maxOutputTokens\<close> is a positive integer, fails for
  \<open>MAX_TOKENS=-5\<close>: the session is started with \<open>maxOutputTokens = -5\<close>.
\<close>
theorem negative_max_tokens_counterexample:
  "sdk_calls (chat_handler edge_env (sdk_with silent_adapter) 1700000000000 hello_body) =
     [GetGenerativeModel (js ''gemini-pro'') (js ''hello world''),
      StartChat \<lparr>history = [],
                 generation = \<lparr>maxOutputTokens = Finite (- 5), temperature = 7 / 10,
                               topP = 9 / 10, topK = 40\<rparr>,
                 safety = safetySettings\<rparr>,
      SendMessage (js ''hello world'')]"
proof -
  have "parseInt (js ''-5'') = Finite (- 5)"
    by (simp add: parseInt_def Let_def js_def is_js_whitespace_def digit_value_def number_def
          to_double_def)
  then have "max_tokens edge_env = Finite (- 5)"
    by (simp add: max_tokens_def edge_env_def)
  then show ?thesis
    by (simp add: handler_on_hello model_names generationConfig_def)
qed

text \<open>
  C9. When the race is won by a result of the call that has no \<open>response\<close> field, the
  handler answers HTTP 500 with \<open>success: false\<close>: the message of the error it throws
  contains neither \<open>Timeout\<close> nor \<open>invalid\<close>.
\<close>
theorem missing_response_is_500:
  assumes "race_result (final (chat_handler env api now b)) = Some (t, Resolves r)"
    and "r = None \<or> (\<exists>res. r = Some res \<and> response res = None)"
  shows "reply (final (chat_handler env api now b))
           = Some (t, \<lparr>status = 500,
                       body = Failure generic_text
                                (if NODE_ENV env = Some (js ''development'')
                                 then Some (message invalid_response_error) else None)\<rparr>)
         \<and> logged (final (chat_handler env api now b)) = [invalid_response_error]
         \<and> \<not> str_includes (message invalid_response_error) (js ''Timeout'')
         \<and> \<not> str_includes (message invalid_response_error) (js ''invalid'')"
proof -
  have n: "\<not> str_includes (message invalid_response_error) (js ''Timeout'')"
          "\<not> str_includes (message invalid_response_error) (js ''invalid'')"
    by (simp_all add: invalid_response_error_def js_def)
  have "on_result env now t r = Inl invalid_response_error"
    using assms(2) by (auto simp: on_result_def)
  then have "answer env now t (Resolves r)
               = (catch_block env invalid_response_error, [invalid_response_error])"
    by (simp add: answer_def)
  with handler_race[OF assms(1)] n show ?thesis
    by (simp add: settled_as_def catch_block_def statusCode_def)
qed

theorem missing_response_is_500_witness:
  "reply (final (chat_handler production_env (sdk_with (prompt_adapter None)) 0 hello_body))
     = Some (100, \<lparr>status = 500, body = Failure generic_text None\<rparr>)"
proof -
  have "race_result (final (chat_handler production_env (sdk_with (prompt_adapter None)) 0
          hello_body)) = Some (100, Resolves None)"
    by (simp add: handler_on_hello run_no_result)
  from missing_response_is_500[OF this] show ?thesis
    by (simp add: production_env_def js_def)
qed



end
